theory Spec2Isabelle
  imports
    Main
    "HOL-Library.AList"
    "HOL-Library.Char_ord"
    "HOL-Library.List_Lexorder"
    "HOL-Library.Product_Lexorder"
    "HOL-Library.Multiset"
begin

unbundle bit_operations_syntax

section \<open>JSON values and their canonical serialisation\<close>

text \<open>
  An input record is a Python dictionary with string keys whose values are JSON
  representable. A dictionary is kept as the list of its items in insertion order
  (keys are distinct in a well-formed record). A float is carried by the text that
  \<^verbatim>\<open>float.__repr__\<close> gives for it, which is what \<^verbatim>\<open>json.dumps\<close> emits; an
  integer is a Python \<^verbatim>\<open>int\<close>. Characters are the code points below 256.
\<close>

datatype json =
    JNull
  | JBool bool
  | JInt int
  | JFloat string
  | JStr string
  | JArr "json list"
  | JObj "(string \<times> json) list"

definition digit_char :: "nat \<Rightarrow> char" where
  "digit_char d = ''0123456789abcdef'' ! d"

text \<open>Decimal digits of a natural number, most significant first (\<^verbatim>\<open>int.__repr__\<close>).\<close>

function nat_repr :: "nat \<Rightarrow> string" where
  "nat_repr k = (if k < 10 then [digit_char k] else nat_repr (k div 10) @ [digit_char (k mod 10)])"
  by pat_completeness auto
termination
  by (relation "measure id") auto

declare nat_repr.simps [simp del]

definition int_repr :: "int \<Rightarrow> string" where
  "int_repr i = (if i < 0 then ''-'' @ nat_repr (nat (- i)) else nat_repr (nat i))"

text \<open>Lower-case hexadecimal digits of a natural number, and Python's \<^verbatim>\<open>hex\<close>.\<close>

function hex_digits :: "nat \<Rightarrow> string" where
  "hex_digits k = (if k < 16 then [digit_char k] else hex_digits (k div 16) @ [digit_char (k mod 16)])"
  by pat_completeness auto
termination
  by (relation "measure id") auto

declare hex_digits.simps [simp del]

definition hex :: "int \<Rightarrow> string" where
  "hex i = (if i < 0 then ''-0x'' @ hex_digits (nat (- i)) else ''0x'' @ hex_digits (nat i))"

text \<open>The value a string of hexadecimal digits denotes (used to state what \<open>hex\<close> writes).\<close>

definition hex_digit_value :: "char \<Rightarrow> nat" where
  "hex_digit_value c =
     (if CHR ''0'' \<le> c \<and> c \<le> CHR ''9'' then of_char c - 48 else of_char c - 87)"

definition hex_value :: "string \<Rightarrow> nat" where
  "hex_value s = foldl (\<lambda>acc c. 16 * acc + hex_digit_value c) 0 s"

text \<open>
  \<^verbatim>\<open>json.encoder.py_encode_basestring_ascii\<close>: the string in double quotes, with
  the quote and the backslash escaped, the short escapes for the control characters
  that have one, and \<^verbatim>\<open>\uXXXX\<close> for every other character outside printable ASCII.
\<close>

definition hex4 :: "nat \<Rightarrow> string" where
  "hex4 k = map (\<lambda>i. digit_char ((k div 16 ^ i) mod 16)) [3, 2, 1, 0]"

definition escape_char :: "char \<Rightarrow> string" where
  "escape_char c =
     (if c = CHR 0x22 then [CHR 0x5C, CHR 0x22]
      else if c = CHR 0x5C then [CHR 0x5C, CHR 0x5C]
      else if c = CHR 0x0A then [CHR 0x5C, CHR ''n'']
      else if c = CHR 0x0D then [CHR 0x5C, CHR ''r'']
      else if c = CHR 0x09 then [CHR 0x5C, CHR ''t'']
      else if c = CHR 0x08 then [CHR 0x5C, CHR ''b'']
      else if c = CHR 0x0C then [CHR 0x5C, CHR ''f'']
      else if (of_char c :: nat) < 32 \<or> (of_char c :: nat) > 126
        then [CHR 0x5C, CHR ''u''] @ hex4 (of_char c)
      else [c])"

definition encode_basestring_ascii :: "string \<Rightarrow> string" where
  "encode_basestring_ascii s = [CHR 0x22] @ concat (map escape_char s) @ [CHR 0x22]"

fun join_sep :: "string \<Rightarrow> string list \<Rightarrow> string" where
  "join_sep sep [] = []"
| "join_sep sep [x] = x"
| "join_sep sep (x # y # ys) = x @ sep @ join_sep sep (y # ys)"

text \<open>
  \<^verbatim>\<open>sort_keys=True\<close>: the items of every dictionary, at every depth, are written in
  the order of their keys. \<open>sort_keys\<close> puts a value into that order and \<open>render\<close>
  writes a value with the default separators \<^verbatim>\<open>", "\<close> and \<^verbatim>\<open>": "\<close>; together they
  are \<^verbatim>\<open>json.dumps(js, sort_keys=True, ensure_ascii=True)\<close>.
\<close>

primrec sort_keys :: "json \<Rightarrow> json" where
  "sort_keys JNull = JNull"
| "sort_keys (JBool b) = JBool b"
| "sort_keys (JInt i) = JInt i"
| "sort_keys (JFloat r) = JFloat r"
| "sort_keys (JStr s) = JStr s"
| "sort_keys (JArr xs) = JArr (map sort_keys xs)"
| "sort_keys (JObj kvs) = JObj (sort_key fst (map (map_prod id sort_keys) kvs))"

definition render_item :: "string \<times> string \<Rightarrow> string" where
  "render_item kv = encode_basestring_ascii (fst kv) @ '': '' @ snd kv"

primrec render :: "json \<Rightarrow> string" where
  "render JNull = ''null''"
| "render (JBool b) = (if b then ''true'' else ''false'')"
| "render (JInt i) = int_repr i"
| "render (JFloat r) = r"
| "render (JStr s) = encode_basestring_ascii s"
| "render (JArr xs) = ''['' @ join_sep '', '' (map render xs) @ '']''"
| "render (JObj kvs) = ''{'' @ join_sep '', '' (map render_item (map (map_prod id render) kvs)) @ ''}''"

definition dumps :: "json \<Rightarrow> string" where
  "dumps js = render (sort_keys js)"

section \<open>SHA-1\<close>

text \<open>
  \<^verbatim>\<open>hashlib.sha1(...).hexdigest()\<close> after FIPS 180-4, on 32-bit words kept as
  integers with the reduction modulo \<open>2 ^ 32\<close> written out. The message schedule is
  the usual window of sixteen words.
\<close>

definition u32 :: "int \<Rightarrow> int" where
  "u32 x = x mod 2 ^ 32"

definition rotl :: "nat \<Rightarrow> int \<Rightarrow> int" where
  "rotl k x = u32 (x * 2 ^ k) OR (x div 2 ^ (32 - k))"

definition pad_len :: "nat \<Rightarrow> nat" where
  "pad_len l = (64 - ((l + 9) mod 64)) mod 64"

definition be_bytes8 :: "int \<Rightarrow> int list" where
  "be_bytes8 v = map (\<lambda>i. (v div 256 ^ i) mod 256) [7, 6, 5, 4, 3, 2, 1, 0]"

definition sha1_pad :: "int list \<Rightarrow> int list" where
  "sha1_pad msg =
     msg @ [128] @ replicate (pad_len (length msg)) 0 @ be_bytes8 (8 * int (length msg))"

fun be_words :: "int list \<Rightarrow> int list" where
  "be_words (b0 # b1 # b2 # b3 # bs) =
     (b0 * 2 ^ 24 + b1 * 2 ^ 16 + b2 * 2 ^ 8 + b3) # be_words bs"
| "be_words _ = []"

definition sha1_f :: "nat \<Rightarrow> int \<Rightarrow> int \<Rightarrow> int \<Rightarrow> int" where
  "sha1_f t b c d =
     (if t < 20 then (b AND c) OR ((b XOR 0xFFFFFFFF) AND d)
      else if t < 40 then b XOR c XOR d
      else if t < 60 then (b AND c) OR (b AND d) OR (c AND d)
      else b XOR c XOR d)"

definition sha1_k :: "nat \<Rightarrow> int" where
  "sha1_k t =
     (if t < 20 then 0x5A827999
      else if t < 40 then 0x6ED9EBA1
      else if t < 60 then 0x8F1BBCDC
      else 0xCA62C1D6)"

type_synonym sha1_state = "int \<times> int \<times> int \<times> int \<times> int"

definition next_w :: "int list \<Rightarrow> int" where
  "next_w ws = rotl 1 (ws ! 13 XOR ws ! 8 XOR ws ! 2 XOR ws ! 0)"

fun round_step :: "sha1_state \<times> int list \<Rightarrow> nat \<Rightarrow> sha1_state \<times> int list" where
  "round_step ((a, b, c, d, e), ws) t =
     ((u32 (rotl 5 a + sha1_f t b c d + e + sha1_k t + hd ws), a, rotl 30 b, c, d),
      tl ws @ [next_w ws])"

fun compress :: "sha1_state \<Rightarrow> int list \<Rightarrow> sha1_state" where
  "compress (h0, h1, h2, h3, h4) chunk =
     (case fst (foldl round_step ((h0, h1, h2, h3, h4), chunk) [0..<80]) of
        (a, b, c, d, e) \<Rightarrow>
          (u32 (h0 + a), u32 (h1 + b), u32 (h2 + c), u32 (h3 + d), u32 (h4 + e)))"

function blocks :: "sha1_state \<Rightarrow> int list \<Rightarrow> sha1_state" where
  "blocks s [] = s"
| "blocks s (w # ws) = blocks (compress s (take 16 (w # ws))) (drop 16 (w # ws))"
  by pat_completeness auto
termination
  by (relation "measure (\<lambda>(s, ws). length ws)") auto

definition hex_word :: "int \<Rightarrow> string" where
  "hex_word v = map (\<lambda>i. digit_char (nat ((v div 16 ^ i) mod 16))) [7, 6, 5, 4, 3, 2, 1, 0]"

definition sha1_init :: sha1_state where
  "sha1_init = (0x67452301, 0xEFCDAB89, 0x98BADCFE, 0x10325476, 0xC3D2E1F0)"

definition sha1_hexdigest :: "int list \<Rightarrow> string" where
  "sha1_hexdigest msg =
     (case blocks sha1_init (be_words (sha1_pad msg)) of
        (h0, h1, h2, h3, h4) \<Rightarrow> concat (map hex_word [h0, h1, h2, h3, h4]))"

text \<open>\<^verbatim>\<open>str.encode("utf-8")\<close> on code points below 256.\<close>

definition utf8_char :: "char \<Rightarrow> int list" where
  "utf8_char c =
     (if (of_char c :: int) < 128 then [of_char c]
      else [192 + of_char c div 64, 128 + of_char c mod 64])"

definition encode_utf8 :: "string \<Rightarrow> int list" where
  "encode_utf8 s = concat (map utf8_char s)"

section \<open>The Manager: naming\<close>

record manager =
  directory :: string
  filetype :: string
  executable :: string

text \<open>\<^verbatim>\<open>Manager.hashinput\<close>\<close>

definition hashinput :: "json \<Rightarrow> string" where
  "hashinput js =
     (let inputstring = dumps js;
          hashed = sha1_hexdigest (encode_utf8 inputstring)
      in hashed)"

text \<open>\<^verbatim>\<open>os.path.join\<close> (posixpath) of a directory and one component.\<close>

definition path_join :: "string \<Rightarrow> string \<Rightarrow> string" where
  "path_join a b =
     (if b \<noteq> [] \<and> hd b = CHR ''/'' then b
      else if a = [] \<or> last a = CHR ''/'' then a @ b
      else a @ ''/'' @ b)"

text \<open>
  The file system: the regular files, by path. A file holds either a JSON document
  (the value \<^verbatim>\<open>json.load\<close> returns for it) or bytes that are not JSON.
\<close>

datatype content = JsonDoc json | Opaque string

type_synonym fs = "(string \<times> content) list"

datatype error =
    CalledProcessError int string
  | FileNotFoundError string
  | NamingError string
  | ValueError string
  | JSONDecodeError string
  | TypeError

definition isfile :: "fs \<Rightarrow> string \<Rightarrow> bool" where
  "isfile files p = (map_of files p \<noteq> None)"

definition json_load :: "fs \<Rightarrow> string \<Rightarrow> error + json" where
  "json_load files p =
     (case map_of files p of
        None \<Rightarrow> Inl (FileNotFoundError p)
      | Some (Opaque _) \<Rightarrow> Inl (JSONDecodeError p)
      | Some (JsonDoc j) \<Rightarrow> Inr j)"

text \<open>
  The registry is a \<^verbatim>\<open>dict[str, str]\<close>. A document that is not a dictionary of
  strings is refused when it is read.
\<close>

type_synonym registry = "(string \<times> string) list"

fun str_items :: "(string \<times> json) list \<Rightarrow> error + registry" where
  "str_items [] = Inr []"
| "str_items ((k, JStr v) # kvs) =
     (case str_items kvs of Inl e \<Rightarrow> Inl e | Inr r \<Rightarrow> Inr ((k, v) # r))"
| "str_items ((k, _) # kvs) = Inl TypeError"

fun as_registry :: "json \<Rightarrow> error + registry" where
  "as_registry (JObj kvs) = str_items kvs"
| "as_registry _ = Inl TypeError"

definition registry_doc :: "registry \<Rightarrow> json" where
  "registry_doc r = JObj (map (map_prod id JStr) r)"

text \<open>\<^verbatim>\<open>Manager.get_registry\<close>\<close>

definition get_registry :: "manager \<Rightarrow> fs \<Rightarrow> error + registry" where
  "get_registry m files =
     (let registryFile = path_join (directory m) ''simplesimdb.json'' in
      if isfile files registryFile then
        (case json_load files registryFile of Inl e \<Rightarrow> Inl e | Inr j \<Rightarrow> as_registry j)
      else Inr [])"

text \<open>The name a key resolves to: \<^verbatim>\<open>name = hashid; if hashid in registry: name = registry[hashid]\<close>\<close>

definition resolve :: "registry \<Rightarrow> string \<Rightarrow> string" where
  "resolve registry hashid = (case map_of registry hashid of Some name \<Rightarrow> name | None \<Rightarrow> hashid)"

text \<open>\<^verbatim>\<open>Manager.jsonfile\<close>\<close>

definition jsonfile :: "manager \<Rightarrow> fs \<Rightarrow> json \<Rightarrow> error + string" where
  "jsonfile m files js =
     (case get_registry m files of
        Inl e \<Rightarrow> Inl e
      | Inr registry \<Rightarrow>
          (let hashid = hashinput js;
               name = resolve registry hashid
           in Inr (path_join (directory m) (name @ ''.json''))))"

text \<open>\<^verbatim>\<open>Manager.outfile\<close>\<close>

definition outfile :: "manager \<Rightarrow> fs \<Rightarrow> json \<Rightarrow> int \<Rightarrow> error + string" where
  "outfile m files js n =
     (let hashid = hashinput js;
          sim_num = (if n > 0 then hex n else '''')
      in case get_registry m files of
           Inl e \<Rightarrow> Inl e
         | Inr registry \<Rightarrow>
             (let name = resolve registry hashid in
              if filetype m = ''json''
              then Inr (path_join (directory m) (name @ sim_num @ ''_out.json''))
              else Inr (path_join (directory m) (name @ sim_num @ ''.'' @ filetype m))))"

section \<open>The Manager: state and operations\<close>

text \<open>
  The state the Manager works on: the files, the argument vectors the external
  executable has been started with (oldest first), and what has been printed.
\<close>

record world =
  files :: fs
  calls :: "string list list"
  printed :: "string list"

text \<open>
  The external executable is a black box: started with an argument vector on a file
  system it ends with a return code, its captured output and error text, and the
  file system it leaves behind.
\<close>

record completed =
  returncode :: int
  stdout :: string
  stderr :: string
  files_after :: fs

type_synonym runner = "string list \<Rightarrow> fs \<Rightarrow> completed"

definition print :: "string \<Rightarrow> world \<Rightarrow> world" where
  "print s w = w\<lparr>printed := printed w @ [s]\<rparr>"

text \<open>\<^verbatim>\<open>os.remove\<close>: the file must be there.\<close>

definition os_remove :: "string \<Rightarrow> fs \<Rightarrow> error + fs" where
  "os_remove p fl = (if isfile fl p then Inr (AList.delete p fl) else Inl (FileNotFoundError p))"

text \<open>
  \<^verbatim>\<open>with open(p, "w") as f: json.dump(js, f, sort_keys=True, ...)\<close>: the file holds the
  document with its keys in order, whatever it held before.
\<close>

definition json_dump :: "json \<Rightarrow> string \<Rightarrow> fs \<Rightarrow> fs" where
  "json_dump js p fl = AList.update p (JsonDoc (sort_keys js)) fl"

text \<open>\<^verbatim>\<open>Manager.set_registry\<close>\<close>

definition set_registry :: "manager \<Rightarrow> registry \<Rightarrow> fs \<Rightarrow> fs" where
  "set_registry m registry fl =
     (let registryFile = path_join (directory m) ''simplesimdb.json'';
          fl1 = json_dump (registry_doc registry) registryFile fl
      in if registry = [] then AList.delete registryFile fl1 else fl1)"

text \<open>\<^verbatim>\<open>Manager.register\<close>. The checks run in the order of the source.\<close>

definition name_known_msg :: "string \<Rightarrow> string \<Rightarrow> string" where
  "name_known_msg name known =
     ''The name '' @ [CHR 0x27] @ name @ [CHR 0x27]
       @ '' cannot be used! The input file is already known under the name ''
       @ [CHR 0x27] @ known @ [CHR 0x27] @ ''. Use delete to clear the registry.''"

definition name_in_use_msg :: "string \<Rightarrow> string" where
  "name_in_use_msg name =
     ''The name '' @ [CHR 0x27] @ name @ [CHR 0x27]
       @ '' is already in use for a different simulation. Choose a different name!''"

definition name_clash :: "registry \<Rightarrow> string \<Rightarrow> string \<Rightarrow> bool" where
  "name_clash registry hashid name =
     list_ex (\<lambda>(key, value). value = name \<and> key \<noteq> hashid) registry"

definition register :: "manager \<Rightarrow> world \<Rightarrow> json \<Rightarrow> string \<Rightarrow> (error + unit) \<times> world" where
  "register m w js name =
     (case get_registry m (files w) of
        Inl e \<Rightarrow> (Inl e, w)
      | Inr registry \<Rightarrow>
          (let hashid = hashinput js in
           if name = ''simplesimdb''
           then (Inl (NamingError
                   ''The name simplesimdb is not allowed. Choose a different name!''), w)
           else
             (case map_of registry hashid of
                Some known \<Rightarrow>
                  if name \<noteq> known then (Inl (NamingError (name_known_msg name known)), w)
                  else if name_clash registry hashid name
                  then (Inl (NamingError (name_in_use_msg name)), w)
                  else (Inr (), w\<lparr>files := set_registry m registry (files w)\<rparr>)
              | None \<Rightarrow>
                  (let jsonfile = path_join (directory m) (hashid @ ''.json'') in
                   if isfile (files w) jsonfile
                   then (Inl (NamingError (name_known_msg name jsonfile)), w)
                   else
                     (let registry1 = AList.update hashid name registry in
                      if name_clash registry1 hashid name
                      then (Inl (NamingError (name_in_use_msg name)), w)
                      else (Inr (), w\<lparr>files := set_registry m registry1 (files w)\<rparr>))))))"

text \<open>\<^verbatim>\<open>Manager.exists\<close>\<close>

definition exists :: "manager \<Rightarrow> fs \<Rightarrow> json \<Rightarrow> int \<Rightarrow> error + bool" where
  "exists m fl js n =
     (case outfile m fl js n of Inl e \<Rightarrow> Inl e | Inr ncfile \<Rightarrow> Inr (isfile fl ncfile))"

text \<open>\<^verbatim>\<open>Manager.select\<close>\<close>

definition select :: "manager \<Rightarrow> fs \<Rightarrow> json \<Rightarrow> int \<Rightarrow> error + string" where
  "select m fl js n =
     (case outfile m fl js n of
        Inl e \<Rightarrow> Inl e
      | Inr ncfile \<Rightarrow>
          if \<not> isfile fl ncfile then Inl (ValueError ''Entry does not exist'')
          else Inr ncfile)"

text \<open>
  \<^verbatim>\<open>subprocess.run(argv, check=True, capture_output=True)\<close>: the start is recorded,
  the files are what the executable leaves behind.
\<close>

definition subprocess_run :: "runner \<Rightarrow> string list \<Rightarrow> world \<Rightarrow> completed \<times> world" where
  "subprocess_run run argv w =
     (let p = run argv (files w)
      in (p, w\<lparr>files := files_after p, calls := calls w @ [argv]\<rparr>))"

text \<open>The \<^verbatim>\<open>except subprocess.CalledProcessError\<close> block of \<^verbatim>\<open>Manager.create\<close>.\<close>

definition create_failed ::
    "manager \<Rightarrow> world \<Rightarrow> json \<Rightarrow> int \<Rightarrow> string \<Rightarrow> string \<Rightarrow> completed
      \<Rightarrow> (error + string) \<times> world" where
  "create_failed m w js n ncfile err p =
     (let w1 = (if isfile (files w) ncfile
                then w\<lparr>files := AList.delete ncfile (files w)\<rparr> else w)
      in case (if n = 0
               then (case jsonfile m (files w1) js of
                       Inl e \<Rightarrow> Inl e
                     | Inr jf \<Rightarrow> os_remove jf (files w1))
               else Inr (files w1)) of
           Inl e \<Rightarrow> (Inl e, w1)
         | Inr fl \<Rightarrow>
             (let w2 = w1\<lparr>files := fl\<rparr> in
              if err = ''display'' then (Inr ncfile, print (stderr p) w2)
              else if err = ''raise''
              then (Inl (CalledProcessError (returncode p) (stderr p)), w2)
              else (Inr ncfile, w2)))"

text \<open>The \<^verbatim>\<open>try\<close> block of \<^verbatim>\<open>Manager.create\<close>, from the argument vector on.\<close>

definition create_run ::
    "runner \<Rightarrow> manager \<Rightarrow> world \<Rightarrow> json \<Rightarrow> int \<Rightarrow> string \<Rightarrow> string \<Rightarrow> string
      \<Rightarrow> (error + string) \<times> world" where
  "create_run run m w js n ncfile err out =
     (case jsonfile m (files w) js of
        Inl e \<Rightarrow> (Inl e, w)
      | Inr jf \<Rightarrow>
          (case (if n = 0 then Inr [executable m, jf, ncfile]
                 else (case outfile m (files w) js (n - 1) of
                         Inl e \<Rightarrow> Inl e
                       | Inr previous_ncfile \<Rightarrow>
                           Inr [executable m, jf, ncfile, previous_ncfile])) of
             Inl e \<Rightarrow> (Inl e, w)
           | Inr argv \<Rightarrow>
               (case subprocess_run run argv w of
                  (p, w1) \<Rightarrow>
                    if returncode p = 0
                    then (Inr ncfile, if out = ''display'' then print (stdout p) w1 else w1)
                    else create_failed m w1 js n ncfile err p)))"

text \<open>\<^verbatim>\<open>Manager.create\<close>, whose first step is \<^verbatim>\<open>if name != "": self.register(js, name)\<close>.\<close>

definition register_if_named ::
    "manager \<Rightarrow> world \<Rightarrow> json \<Rightarrow> string \<Rightarrow> (error + unit) \<times> world" where
  "register_if_named m w js name = (if name \<noteq> [] then register m w js name else (Inr (), w))"

definition last9 :: "string \<Rightarrow> string" where
  "last9 s = drop (length s - 9) s"

definition create ::
    "runner \<Rightarrow> manager \<Rightarrow> world \<Rightarrow> json \<Rightarrow> int \<Rightarrow> string \<Rightarrow> string \<Rightarrow> string
      \<Rightarrow> (error + string) \<times> world" where
  "create run m w js n name err out =
     (let hashid = hashinput js in
      case register_if_named m w js name of
        (Inl e, w1) \<Rightarrow> (Inl e, w1)
      | (Inr _, w1) \<Rightarrow>
          (case outfile m (files w1) js n of
             Inl e \<Rightarrow> (Inl e, w1)
           | Inr ncfile \<Rightarrow>
               if isfile (files w1) ncfile
               then (Inr ncfile,
                     print (''Existing simulation '' @ take 6 hashid @ ''...'' @ last9 ncfile) w1)
               else
                 (let w2 = print (''Running simulation '' @ take 6 hashid @ ''...''
                                    @ last9 ncfile) w1
                  in case jsonfile m (files w2) js of
                       Inl e \<Rightarrow> (Inl e, w2)
                     | Inr jf \<Rightarrow>
                         (let w3 = (if \<not> isfile (files w2) jf
                                    then w2\<lparr>files := json_dump js jf (files w2)\<rparr>
                                    else w2)
                          in create_run run m w3 js n ncfile err out))))"

text \<open>\<^verbatim>\<open>Manager.delete\<close>\<close>

definition delete :: "manager \<Rightarrow> world \<Rightarrow> json \<Rightarrow> int \<Rightarrow> (error + unit) \<times> world" where
  "delete m w js n =
     (case outfile m (files w) js n of
        Inl e \<Rightarrow> (Inl e, w)
      | Inr ncfile \<Rightarrow>
          if isfile (files w) ncfile then
            (let w1 = w\<lparr>files := AList.delete ncfile (files w)\<rparr> in
             if n = 0 then
               (case jsonfile m (files w1) js of
                  Inl e \<Rightarrow> (Inl e, w1)
                | Inr jf \<Rightarrow>
                    (case os_remove jf (files w1) of
                       Inl e \<Rightarrow> (Inl e, w1)
                     | Inr fl \<Rightarrow>
                         (let w2 = w1\<lparr>files := fl\<rparr> in
                          case get_registry m (files w2) of
                            Inl e \<Rightarrow> (Inl e, w2)
                          | Inr registry \<Rightarrow>
                              (let hashid = hashinput js;
                                   registry1 = (if map_of registry hashid \<noteq> None
                                                then AList.delete hashid registry
                                                else registry)
                               in (Inr (), w2\<lparr>files := set_registry m registry1 (files w2)\<rparr>)))))
             else (Inr (), w1))
          else (Inr (), w))"

text \<open>\<^verbatim>\<open>Manager.recreate\<close>\<close>

definition recreate ::
    "runner \<Rightarrow> manager \<Rightarrow> world \<Rightarrow> json \<Rightarrow> int \<Rightarrow> string \<Rightarrow> string \<Rightarrow> string
      \<Rightarrow> (error + string) \<times> world" where
  "recreate run m w js n name err out =
     (case delete m w js n of
        (Inl e, w1) \<Rightarrow> (Inl e, w1)
      | (Inr _, w1) \<Rightarrow> create run m w1 js n name err out)"

text \<open>
  \<^verbatim>\<open>Manager.count\<close>: \<^verbatim>\<open>number = 0; while self.exists(js, number): number += 1\<close>.
  The loop is the recursion below; that it ends on every file system is proved with
  its termination.
\<close>

function count_loop :: "manager \<Rightarrow> fs \<Rightarrow> json \<Rightarrow> nat \<Rightarrow> error + nat" where
  "count_loop m fl js number =
     (case exists m fl js (int number) of
        Inl e \<Rightarrow> Inl e
      | Inr b \<Rightarrow> if b then count_loop m fl js (Suc number) else Inr number)"
  by pat_completeness auto

definition count :: "manager \<Rightarrow> fs \<Rightarrow> json \<Rightarrow> error + nat" where
  "count m fl js = count_loop m fl js 0"












section \<open>Example data and the notions the statements use\<close>

definition ex_manager :: manager where
  "ex_manager = \<lparr>directory = ''data'', filetype = ''nc'', executable = ''./execute.sh''\<rparr>"

definition ex_input :: json where
  "ex_input = JObj [(''a'', JInt 10)]"

text \<open>A directory that holds only the registry, with \<open>ex_input\<close> registered as \<^verbatim>\<open>run\<close>.\<close>

definition ex_named :: fs where
  "ex_named = [(''data/simplesimdb.json'', JsonDoc (registry_doc [(hashinput ex_input, ''run'')]))]"

text \<open>The same with the input file of \<open>ex_input\<close> written, and no output file.\<close>

definition ex_input_only :: world where
  "ex_input_only =
     \<lparr>files = ex_named @ [(''data/run.json'', JsonDoc (sort_keys ex_input))],
      calls = [], printed = []\<rparr>"

text \<open>The path of the registry file, and the two parts of an output file's name.\<close>

definition registry_path :: "manager \<Rightarrow> string" where
  "registry_path m = path_join (directory m) ''simplesimdb.json''"

definition sim_num :: "int \<Rightarrow> string" where
  "sim_num n = (if n > 0 then ''0x'' @ hex_digits (nat n) else [])"

definition out_ext :: "manager \<Rightarrow> string" where
  "out_ext m = (if filetype m = ''json'' then ''_out.json'' else ''.'' @ filetype m)"

definition ex_gap :: fs where
  "ex_gap = ex_named @
     [(''data/run.json'', JsonDoc (sort_keys ex_input)),
      (''data/run.nc'', Opaque ''0''),
      (''data/run0x1.nc'', Opaque ''1''),
      (''data/run0x3.nc'', Opaque ''3'')]"

definition register_refused :: "manager \<Rightarrow> fs \<Rightarrow> registry \<Rightarrow> json \<Rightarrow> string \<Rightarrow> bool" where
  "register_refused m fl registry js name =
     (name = ''simplesimdb''
      \<or> (\<exists>known. map_of registry (hashinput js) = Some known \<and> known \<noteq> name)
      \<or> (map_of registry (hashinput js) = None
           \<and> isfile fl (path_join (directory m) (hashinput js @ ''.json'')))
      \<or> (\<exists>key. key \<noteq> hashinput js \<and> (key, name) \<in> set registry))"

definition ex_empty :: world where
  "ex_empty = \<lparr>files = [], calls = [], printed = []\<rparr>"

definition ex_stored :: world where
  "ex_stored = \<lparr>files = ex_gap, calls = [], printed = []\<rparr>"

definition input_written :: "json \<Rightarrow> string \<Rightarrow> fs \<Rightarrow> fs" where
  "input_written js jf fl = (if isfile fl jf then fl else json_dump js jf fl)"

definition run_argv :: "manager \<Rightarrow> string \<Rightarrow> string \<Rightarrow> int \<Rightarrow> string \<Rightarrow> string list" where
  "run_argv m jf ncfile n previous_ncfile =
     (if n = 0 then [executable m, jf, ncfile] else [executable m, jf, ncfile, previous_ncfile])"

definition running_msg :: "json \<Rightarrow> string \<Rightarrow> string" where
  "running_msg js ncfile = ''Running simulation '' @ take 6 (hashinput js) @ ''...'' @ last9 ncfile"

definition ex_runner_ok :: runner where
  "ex_runner_ok argv fl =
     \<lparr>returncode = 0, stdout = [], stderr = [],
      files_after = AList.update (argv ! 2) (Opaque ''result'') fl\<rparr>"

definition ex_runner_fail :: runner where
  "ex_runner_fail argv fl =
     \<lparr>returncode = 1, stdout = [], stderr = ''boom'',
      files_after = AList.update (argv ! 2) (Opaque ''partial'') fl\<rparr>"

definition ex_registered :: world where
  "ex_registered = \<lparr>files = ex_named, calls = [], printed = []\<rparr>"

definition ex_first :: world where
  "ex_first =
     \<lparr>files = ex_named @
        [(''data/run.json'', JsonDoc (sort_keys ex_input)), (''data/run.nc'', Opaque ''0'')],
      calls = [], printed = []\<rparr>"

definition existing_msg :: "json \<Rightarrow> string \<Rightarrow> string" where
  "existing_msg js ncfile = ''Existing simulation '' @ take 6 (hashinput js) @ ''...'' @ last9 ncfile"

definition ex_orphan :: world where
  "ex_orphan =
     \<lparr>files = ex_named @ [(''data/run.nc'', Opaque ''result'')], calls = [], printed = []\<rparr>"

definition ex_manager_h5 :: manager where
  "ex_manager_h5 = ex_manager\<lparr>filetype := ''h5''\<rparr>"

definition key_of_length :: "nat \<Rightarrow> json" where
  "key_of_length k = JObj [(replicate k CHR ''a'', JNull)]"



section \<open>Properties of the naming scheme\<close>

lemma digit_char_hex: "d < 16 \<Longrightarrow> digit_char d \<in> set ''0123456789abcdef''"
  unfolding digit_char_def
  by (rule nth_mem) simp

lemma hex_digits_chars: "set (hex_digits k) \<subseteq> set ''0123456789abcdef''"
proof (induction k rule: hex_digits.induct)
  case (1 k)
  show ?case
  proof (cases "k < 16")
    case True
    then show ?thesis
      using digit_char_hex [of k] by (subst hex_digits.simps) simp
  next
    case False
    have "k mod 16 < 16" by simp
    then have "digit_char (k mod 16) \<in> set ''0123456789abcdef''"
      by (rule digit_char_hex)
    with False "1.IH" show ?thesis
      by (subst hex_digits.simps) simp
  qed
qed

lemma hex_digit_value_digit_char: "d < 16 \<Longrightarrow> hex_digit_value (digit_char d) = d"
proof -
  assume "d < 16"
  then have "d = 0 \<or> d = 1 \<or> d = 2 \<or> d = 3 \<or> d = 4 \<or> d = 5 \<or> d = 6 \<or> d = 7 \<or> d = 8
      \<or> d = 9 \<or> d = 10 \<or> d = 11 \<or> d = 12 \<or> d = 13 \<or> d = 14 \<or> d = 15"
    by arith
  then show ?thesis
    by (auto simp: hex_digit_value_def digit_char_def less_eq_char_def)
qed

lemma hex_value_snoc: "hex_value (s @ [c]) = 16 * hex_value s + hex_digit_value c"
  by (simp add: hex_value_def)

lemma hex_value_hex_digits: "hex_value (hex_digits k) = k"
proof (induction k rule: hex_digits.induct)
  case (1 k)
  show ?case
  proof (cases "k < 16")
    case True
    then show ?thesis
      by (subst hex_digits.simps) (simp add: hex_value_def hex_digit_value_digit_char)
  next
    case False
    with "1.IH" show ?thesis
      by (subst hex_digits.simps) (simp add: hex_value_snoc hex_digit_value_digit_char)
  qed
qed

lemma hex_digits_nonempty: "hex_digits k \<noteq> []"
  by (subst hex_digits.simps) simp

lemma path_join_same_head:
  "(a \<noteq> [] \<and> hd a = CHR ''/'') = (b \<noteq> [] \<and> hd b = CHR ''/'')
    \<Longrightarrow> path_join d a = path_join d b \<Longrightarrow> a = b"
  by (auto simp: path_join_def split: if_splits)

lemma path_join_common_prefix:
  assumes "x \<noteq> [] \<Longrightarrow> hd x \<noteq> CHR ''/''" "y \<noteq> [] \<Longrightarrow> hd y \<noteq> CHR ''/''" "x \<noteq> [] \<or> name \<noteq> []" "y \<noteq> [] \<or> name \<noteq> []"
  shows "path_join d (name @ x) = path_join d (name @ y) \<longleftrightarrow> x = y"
proof
  assume eq: "path_join d (name @ x) = path_join d (name @ y)"
  have "(name @ x \<noteq> [] \<and> hd (name @ x) = CHR ''/'') = (name @ y \<noteq> [] \<and> hd (name @ y) = CHR ''/'')"
    using assms by (cases name) auto
  from path_join_same_head [OF this eq] show "x = y" by simp
qed simp

text \<open>
  Claim C8. The output path of \<open>(js, n)\<close> is determined by the directory, the name
  the key resolves to (the registered name, else the hash), the output extension and
  \<open>n\<close>: the stem is followed by nothing for \<open>n = 0\<close> and by \<^verbatim>\<open>0x\<close> and the lower-case
  hexadecimal digits of \<open>n\<close> for \<open>n > 0\<close>, then by \<^verbatim>\<open>_out.json\<close> when the extension is
  \<^verbatim>\<open>json\<close> and by a dot and the extension otherwise; it is never the path of the input
  file.
\<close>

theorem outfile_path:
  assumes "get_registry m fl = Inr registry"
  shows "outfile m fl js n =
           Inr (path_join (directory m)
                  (resolve registry (hashinput js)
                   @ (if n > 0 then ''0x'' @ hex_digits (nat n) else [])
                   @ (if filetype m = ''json'' then ''_out.json'' else ''.'' @ filetype m)))
         \<and> set (hex_digits (nat n)) \<subseteq> set ''0123456789abcdef''
         \<and> hex_value (hex_digits (nat n)) = nat n
         \<and> outfile m fl js n \<noteq> jsonfile m fl js"
proof -
  let ?name = "resolve registry (hashinput js)"
  let ?sim = "if n > 0 then ''0x'' @ hex_digits (nat n) else []"
  let ?ext = "if filetype m = ''json'' then ''_out.json'' else ''.'' @ filetype m"
  have out: "outfile m fl js n = Inr (path_join (directory m) (?name @ ?sim @ ?ext))"
    using assms by (simp add: outfile_def hex_def Let_def)
  have js: "jsonfile m fl js = Inr (path_join (directory m) (?name @ ''.json''))"
    using assms by (simp add: jsonfile_def Let_def)
  have ne: "?sim @ ?ext \<noteq> ''.json''"
    by (auto simp: Cons_eq_append_conv)
  have "path_join (directory m) (?name @ (?sim @ ?ext)) \<noteq> path_join (directory m) (?name @ ''.json'')"
    using ne by (subst path_join_common_prefix) (auto simp: hd_append)
  with out js show ?thesis
    using hex_digits_chars [of "nat n"] hex_value_hex_digits [of "nat n"] by simp
qed

lemma ex_named_registry: "get_registry ex_manager ex_named = Inr [(hashinput ex_input, ''run'')]"
  by (simp add: get_registry_def ex_manager_def ex_named_def path_join_def isfile_def
      json_load_def registry_doc_def)

lemma hex_digits_26: "hex_digits 26 = ''1a''"
  by (simp add: hex_digits.simps [of 26] hex_digits.simps [of "Suc 0"] digit_char_def)

theorem outfile_path_witness:
  "get_registry ex_manager ex_named = Inr [(hashinput ex_input, ''run'')]
   \<and> outfile ex_manager ex_named ex_input 26 = Inr ''data/run0x1a.nc''
   \<and> set (hex_digits (nat 26)) \<subseteq> set ''0123456789abcdef''
   \<and> hex_value (hex_digits (nat 26)) = nat 26
   \<and> outfile ex_manager ex_named ex_input 26 \<noteq> jsonfile ex_manager ex_named ex_input"
proof -
  have "path_join (directory ex_manager)
          (resolve [(hashinput ex_input, ''run'')] (hashinput ex_input)
           @ (if (26::int) > 0 then ''0x'' @ hex_digits (nat 26) else [])
           @ (if filetype ex_manager = ''json'' then ''_out.json'' else ''.'' @ filetype ex_manager))
        = ''data/run0x1a.nc''"
    by (simp add: resolve_def ex_manager_def path_join_def hex_digits_26)
  with outfile_path [OF ex_named_registry, of ex_input 26] ex_named_registry
  show ?thesis by auto
qed

text \<open>
  Claim C9. \<open>delete js 0\<close> changes nothing when the output file of index 0 does not
  exist: the input file and the registered name stay, and so does everything else.
\<close>

theorem delete_missing_output_noop:
  assumes "outfile m (files w) js 0 = Inr ncfile" and "\<not> isfile (files w) ncfile"
  shows "delete m w js 0 = (Inr (), w)"
  using assms by (simp add: delete_def)

lemma ex_input_only_registry:
  "get_registry ex_manager (files ex_input_only) = Inr [(hashinput ex_input, ''run'')]"
  by (simp add: get_registry_def ex_manager_def ex_named_def ex_input_only_def path_join_def
      isfile_def json_load_def registry_doc_def)

theorem delete_missing_output_noop_witness:
  "outfile ex_manager (files ex_input_only) ex_input 0 = Inr ''data/run.nc''
   \<and> \<not> isfile (files ex_input_only) ''data/run.nc''
   \<and> jsonfile ex_manager (files ex_input_only) ex_input = Inr ''data/run.json''
   \<and> isfile (files ex_input_only) ''data/run.json''
   \<and> map_of [(hashinput ex_input, ''run'')] (hashinput ex_input) = Some ''run''
   \<and> delete ex_manager ex_input_only ex_input 0 = (Inr (), ex_input_only)"
proof -
  have o: "outfile ex_manager (files ex_input_only) ex_input 0 = Inr ''data/run.nc''"
    by (simp add: outfile_def ex_input_only_registry resolve_def)
       (simp add: ex_manager_def path_join_def)
  have n: "\<not> isfile (files ex_input_only) ''data/run.nc''"
    by (simp add: isfile_def ex_input_only_def ex_named_def)
  have j: "jsonfile ex_manager (files ex_input_only) ex_input = Inr ''data/run.json''"
    by (simp add: jsonfile_def ex_input_only_registry resolve_def)
       (simp add: ex_manager_def path_join_def)
  have i: "isfile (files ex_input_only) ''data/run.json''"
    by (simp add: isfile_def ex_input_only_def ex_named_def)
  from delete_missing_output_noop [OF o n] o n j i show ?thesis by simp
qed

lemma isfile_iff: "isfile fl p \<longleftrightarrow> p \<in> fst ` set fl"
  by (simp add: isfile_def map_of_eq_None_iff)

lemma outfile_eq:
  "get_registry m fl = Inr registry \<Longrightarrow>
   outfile m fl js n =
     Inr (path_join (directory m) (resolve registry (hashinput js) @ sim_num n @ out_ext m))"
  by (simp add: outfile_def hex_def Let_def sim_num_def out_ext_def)

lemma sim_num_inj: "0 \<le> a \<Longrightarrow> 0 \<le> b \<Longrightarrow> sim_num a = sim_num b \<Longrightarrow> a = b"
proof -
  assume a: "0 \<le> a" and b: "0 \<le> b" and eq: "sim_num a = sim_num b"
  show "a = b"
  proof (cases "a > 0")
    case True
    with eq have b0: "b > 0" by (auto simp: sim_num_def split: if_splits)
    with True eq have "hex_digits (nat a) = hex_digits (nat b)" by (simp add: sim_num_def)
    then have "hex_value (hex_digits (nat a)) = hex_value (hex_digits (nat b))" by simp
    then have "nat a = nat b" by (simp add: hex_value_hex_digits)
    with True b0 show ?thesis by simp
  next
    case False
    with eq have "\<not> b > 0" by (auto simp: sim_num_def split: if_splits)
    with False a b show ?thesis by simp
  qed
qed

lemma stem_path_inj:
  "path_join d (name @ sim_num a @ out_ext m) = path_join d (name @ sim_num b @ out_ext m)
    \<longleftrightarrow> sim_num a = sim_num b"
proof -
  have "path_join d (name @ (sim_num a @ out_ext m)) = path_join d (name @ (sim_num b @ out_ext m))
    \<longleftrightarrow> sim_num a @ out_ext m = sim_num b @ out_ext m"
    by (rule path_join_common_prefix) (auto simp: sim_num_def out_ext_def hd_append)
  then show ?thesis by simp
qed

lemma outfile_inj:
  assumes "get_registry m fl = Inr registry" "0 \<le> a" "0 \<le> b"
    and "outfile m fl js a = outfile m fl js b"
  shows "a = b"
  using assms by (simp add: outfile_eq stem_path_inj sim_num_inj)

lemma exists_eq:
  "get_registry m fl = Inr registry \<Longrightarrow>
   exists m fl js n =
     Inr (isfile fl (path_join (directory m) (resolve registry (hashinput js) @ sim_num n @ out_ext m)))"
  by (simp add: exists_def outfile_eq)

lemma exists_registry_error:
  "get_registry m fl = Inl e \<Longrightarrow> exists m fl js n = Inl e"
  by (simp add: exists_def outfile_def Let_def)

lemma finite_existing: "finite {k. exists m fl js (int k) = Inr True}"
proof (cases "get_registry m fl")
  case (Inl e)
  then show ?thesis by (simp add: exists_registry_error)
next
  case (Inr registry)
  let ?p = "\<lambda>k. path_join (directory m) (resolve registry (hashinput js) @ sim_num (int k) @ out_ext m)"
  have "inj ?p"
  proof (rule injI)
    fix a b assume "?p a = ?p b"
    then have "sim_num (int a) = sim_num (int b)" by (simp add: stem_path_inj)
    then have "int a = int b" by (intro sim_num_inj) simp_all
    then show "a = b" by simp
  qed
  then have "finite (?p -` (fst ` set fl))"
    by (intro finite_vimageI) simp_all
  moreover have "{k. exists m fl js (int k) = Inr True} \<subseteq> ?p -` (fst ` set fl)"
    using Inr by (auto simp: exists_eq isfile_iff)
  ultimately show ?thesis by (rule rev_finite_subset)
qed

termination count_loop
proof (relation "measure (\<lambda>(m, fl, js, number).
          card {k. number \<le> k \<and> exists m fl js (int k) = Inr True})")
  show "wf (measure (\<lambda>(m, fl, js, number).
          card {k. number \<le> k \<and> exists m fl js (int k) = Inr True}))"
    by simp
next
  fix m fl js number b
  assume e: "exists m fl js (int number) = Inr b" and b: b
  let ?A = "\<lambda>i. {k. i \<le> k \<and> exists m fl js (int k) = Inr True}"
  have fin: "finite (?A number)"
    using finite_existing [of m fl js] by (rule rev_finite_subset) auto
  have "number \<in> ?A number" "number \<notin> ?A (Suc number)"
    using e b by auto
  then have "?A (Suc number) \<noteq> ?A number" by blast
  moreover have "?A (Suc number) \<subseteq> ?A number" by auto
  ultimately have "?A (Suc number) \<subset> ?A number" by (rule psubsetI [rotated])
  with fin have "card (?A (Suc number)) < card (?A number)"
    by (rule psubset_card_mono)
  then show "((m, fl, js, Suc number), (m, fl, js, number))
      \<in> measure (\<lambda>(m, fl, js, number). card {k. number \<le> k \<and> exists m fl js (int k) = Inr True})"
    by simp
qed

declare count_loop.simps [simp del]

lemma count_loop_spec:
  "get_registry m fl = Inr registry \<Longrightarrow>
   (\<forall>k<number. exists m fl js (int k) = Inr True) \<Longrightarrow>
   \<exists>c. count_loop m fl js number = Inr c \<and> number \<le> c
        \<and> (\<forall>k<c. exists m fl js (int k) = Inr True)
        \<and> exists m fl js (int c) = Inr False"
proof (induction m fl js number rule: count_loop.induct)
  case (1 m fl js number)
  from "1.prems"(1) obtain b where ex: "exists m fl js (int number) = Inr b"
    by (simp add: exists_eq)
  show ?case
  proof (cases b)
    case True
    with ex "1.prems"(2) have "\<forall>k<Suc number. exists m fl js (int k) = Inr True"
      by (auto simp: less_Suc_eq)
    from "1.IH" [OF ex True "1.prems"(1) this]
    obtain c where "count_loop m fl js (Suc number) = Inr c" "Suc number \<le> c"
      "\<forall>k<c. exists m fl js (int k) = Inr True" "exists m fl js (int c) = Inr False"
      by blast
    with ex True show ?thesis
      by (subst count_loop.simps) auto
  next
    case False
    with ex "1.prems"(2) show ?thesis
      by (subst count_loop.simps) auto
  qed
qed

text \<open>
  Claim C5. \<open>count js\<close> is the length of the run of existing outputs that starts at
  index 0: every index below it exists, the index it returns does not, and a missing
  index bounds it whatever exists above.
\<close>

theorem count_contiguous:
  assumes "get_registry m fl = Inr registry"
  shows "\<exists>c. count m fl js = Inr c
            \<and> (\<forall>k<c. exists m fl js (int k) = Inr True)
            \<and> exists m fl js (int c) = Inr False
            \<and> (\<forall>k. exists m fl js (int k) = Inr False \<longrightarrow> c \<le> k)"
proof -
  from count_loop_spec [OF assms, of 0 js]
  obtain c where c: "count_loop m fl js 0 = Inr c"
    "\<forall>k<c. exists m fl js (int k) = Inr True" "exists m fl js (int c) = Inr False"
    by auto
  have "c \<le> k" if "exists m fl js (int k) = Inr False" for k
  proof (rule ccontr)
    assume "\<not> c \<le> k"
    then have "exists m fl js (int k) = Inr True" using c(2) by simp
    with that show False by simp
  qed
  with c show ?thesis by (auto simp: count_def)
qed

lemma ex_gap_registry: "get_registry ex_manager ex_gap = Inr [(hashinput ex_input, ''run'')]"
  by (simp add: get_registry_def ex_manager_def ex_named_def ex_gap_def path_join_def
      isfile_def json_load_def registry_doc_def)

lemma hex_digits_small: "k < 16 \<Longrightarrow> hex_digits k = [digit_char k]"
  by (subst hex_digits.simps) simp

lemma ex_gap_exists:
  "exists ex_manager ex_gap ex_input 0 = Inr True"
  "exists ex_manager ex_gap ex_input 1 = Inr True"
  "exists ex_manager ex_gap ex_input 2 = Inr False"
  "exists ex_manager ex_gap ex_input 3 = Inr True"
  by (simp_all add: exists_eq [OF ex_gap_registry] resolve_def sim_num_def out_ext_def
      hex_digits_small digit_char_def)
     (simp_all add: ex_manager_def path_join_def isfile_def ex_gap_def ex_named_def)

theorem count_contiguous_witness:
  "get_registry ex_manager ex_gap = Inr [(hashinput ex_input, ''run'')]
   \<and> exists ex_manager ex_gap ex_input 0 = Inr True
   \<and> exists ex_manager ex_gap ex_input 1 = Inr True
   \<and> exists ex_manager ex_gap ex_input 2 = Inr False
   \<and> exists ex_manager ex_gap ex_input 3 = Inr True
   \<and> count ex_manager ex_gap ex_input = Inr 2"
proof -
  from count_contiguous [OF ex_gap_registry, of ex_input]
  obtain c where c: "count ex_manager ex_gap ex_input = Inr c"
    "\<forall>k<c. exists ex_manager ex_gap ex_input (int k) = Inr True"
    "exists ex_manager ex_gap ex_input (int c) = Inr False"
    "\<forall>k. exists ex_manager ex_gap ex_input (int k) = Inr False \<longrightarrow> c \<le> k"
    by blast
  from c(4) ex_gap_exists(3) have "c \<le> 2"
    by (metis of_nat_numeral)
  moreover have "c \<noteq> 0"
  proof
    assume "c = 0"
    with c(3) ex_gap_exists(1) show False by simp
  qed
  moreover have "c \<noteq> 1"
  proof
    assume "c = 1"
    with c(3) ex_gap_exists(2) show False by simp
  qed
  ultimately have "c = 2" by arith
  with c(1) ex_gap_registry ex_gap_exists show ?thesis by simp
qed

lemma isfile_update [simp]: "isfile (AList.update p c fl) q \<longleftrightarrow> q = p \<or> isfile fl q"
  by (auto simp: isfile_def update_conv')

lemma isfile_delete [simp]: "isfile (AList.delete p fl) q \<longleftrightarrow> q \<noteq> p \<and> isfile fl q"
  by (auto simp: isfile_def delete_conv')

lemma map_of_insort_key:
  "map_of (insort_key fst (k, v) ys) = (map_of ys)(k \<mapsto> v)"
proof (induction ys)
  case Nil
  then show ?case by simp
next
  case (Cons y ys)
  then show ?case by (cases y) (auto simp: fun_upd_twist)
qed

lemma map_of_sort_key: "map_of (sort_key fst xs) = map_of xs"
proof (induction xs)
  case Nil
  then show ?case by simp
next
  case (Cons x xs)
  then show ?case by (cases x) (simp add: map_of_insort_key)
qed

lemma insort_key_map_keep:
  assumes "\<And>x. fst (g x) = fst x"
  shows "insort_key fst (g x) (map g ys) = map g (insort_key fst x ys)"
  by (induction ys) (simp_all add: assms)

lemma sort_key_map_keep:
  assumes "\<And>x. fst (g x) = fst x"
  shows "sort_key fst (map g xs) = map g (sort_key fst xs)"
  by (induction xs) (simp_all add: insort_key_map_keep assms)

lemma str_items_JStr: "str_items (map (map_prod id JStr) r) = Inr r"
  by (induction r) auto

lemma as_registry_doc:
  "as_registry (sort_keys (registry_doc r)) = Inr (sort_key fst r)"
proof -
  have "map (map_prod id sort_keys) (map (map_prod id JStr) r) = map (map_prod id JStr) r"
    by (induction r) auto
  then have "sort_keys (registry_doc r) = JObj (sort_key fst (map (map_prod id JStr) r))"
    by (simp only: registry_doc_def sort_keys.simps)
  also have "sort_key fst (map (map_prod id JStr) r) = map (map_prod id JStr) (sort_key fst r)"
    by (rule sort_key_map_keep) simp
  finally show ?thesis
    by (simp only: as_registry.simps str_items_JStr)
qed

lemma get_registry_set_registry:
  "get_registry m (set_registry m registry fl)
     = Inr (sort_key fst registry)"
  by (cases "registry = []")
     (simp_all add: get_registry_def set_registry_def json_dump_def Let_def json_load_def
        update_conv' as_registry_doc)

lemma set_registry_other:
  "p \<noteq> path_join (directory m) ''simplesimdb.json'' \<Longrightarrow>
   map_of (set_registry m registry fl) p = map_of fl p"
  by (simp add: set_registry_def json_dump_def Let_def update_conv' delete_conv')

lemma name_clash_iff:
  "name_clash registry h name \<longleftrightarrow> (\<exists>key. key \<noteq> h \<and> (key, name) \<in> set registry)"
  by (auto simp: name_clash_def list_ex_iff)

lemma set_update_other:
  "key \<noteq> h \<Longrightarrow> (key, v) \<in> set (AList.update h x al) \<longleftrightarrow> (key, v) \<in> set al"
  by (induction al) auto

lemma name_clash_update:
  "name_clash (AList.update h name registry) h name'
     \<longleftrightarrow> (\<exists>key. key \<noteq> h \<and> (key, name') \<in> set registry)"
  unfolding name_clash_iff
  by (metis set_update_other)

text \<open>
  Claim C4. With a readable registry, \<open>register js name\<close> raises exactly when the
  name is \<^verbatim>\<open>simplesimdb\<close>, or the key is bound to another name, or the key is unbound
  and an input file lies under the raw key, or the name is bound to another key; then
  nothing on disk has changed. Otherwise it succeeds, only the registry file is
  written, and the registry read back binds the key to the name and every other key
  as before.
\<close>

theorem register_cases:
  assumes "get_registry m (files w) = Inr registry"
  shows "if register_refused m (files w) registry js name
         then \<exists>msg. register m w js name = (Inl (NamingError msg), w)
         else \<exists>w' registry'. register m w js name = (Inr (), w')
                \<and> calls w' = calls w \<and> printed w' = printed w
                \<and> (\<forall>p. p \<noteq> path_join (directory m) ''simplesimdb.json''
                       \<longrightarrow> map_of (files w') p = map_of (files w) p)
                \<and> get_registry m (files w') = Inr registry'
                \<and> map_of registry' (hashinput js) = Some name
                \<and> (\<forall>key. key \<noteq> hashinput js \<longrightarrow> map_of registry' key = map_of registry key)"
proof -
  let ?h = "hashinput js"
  let ?r = "AList.update ?h name registry"
  have nc: "name_clash registry ?h name \<longleftrightarrow> (\<exists>key. key \<noteq> ?h \<and> (key, name) \<in> set registry)"
    by (rule name_clash_iff)
  have nc1: "name_clash ?r ?h name \<longleftrightarrow> (\<exists>key. key \<noteq> ?h \<and> (key, name) \<in> set registry)"
    by (rule name_clash_update)
  show ?thesis
  proof (cases "register_refused m (files w) registry js name")
    case True
    then have "\<exists>msg. register m w js name = (Inl (NamingError msg), w)"
      using assms
      by (auto simp: register_def register_refused_def Let_def nc nc1 split: option.splits)
    with True show ?thesis by simp
  next
    case False
    show ?thesis
    proof (cases "map_of registry ?h")
      case None
      let ?w = "w\<lparr>files := set_registry m ?r (files w)\<rparr>"
      from None False assms have "register m w js name = (Inr (), ?w)"
        by (auto simp: register_def register_refused_def Let_def nc nc1)
      moreover have "get_registry m (files ?w) = Inr (sort_key fst ?r)"
        by (simp add: get_registry_set_registry)
      moreover have "map_of (sort_key fst ?r) ?h = Some name"
        by (simp add: map_of_sort_key update_conv')
      moreover have "\<forall>key. key \<noteq> ?h \<longrightarrow> map_of (sort_key fst ?r) key = map_of registry key"
        by (simp add: map_of_sort_key update_conv')
      ultimately show ?thesis using False
        by (simp add: set_registry_other)
    next
      case (Some known)
      let ?w = "w\<lparr>files := set_registry m registry (files w)\<rparr>"
      from Some False have kn: "known = name" by (auto simp: register_refused_def)
      from Some False assms have "register m w js name = (Inr (), ?w)"
        by (auto simp: register_def register_refused_def Let_def nc)
      moreover have "get_registry m (files ?w) = Inr (sort_key fst registry)"
        by (simp add: get_registry_set_registry)
      moreover have "map_of (sort_key fst registry) ?h = Some name"
        using Some kn by (simp add: map_of_sort_key)
      ultimately show ?thesis using False
        by (simp add: set_registry_other map_of_sort_key)
    qed
  qed
qed

lemma ex_empty_registry: "get_registry ex_manager (files ex_empty) = Inr []"
  by (simp add: get_registry_def ex_empty_def isfile_def)

theorem register_cases_witness:
  "get_registry ex_manager (files ex_input_only) = Inr [(hashinput ex_input, ''run'')]
   \<and> register_refused ex_manager (files ex_input_only) [(hashinput ex_input, ''run'')]
         ex_input ''other''
   \<and> (\<exists>msg. register ex_manager ex_input_only ex_input ''other''
                = (Inl (NamingError msg), ex_input_only))
   \<and> get_registry ex_manager (files ex_empty) = Inr []
   \<and> \<not> register_refused ex_manager (files ex_empty) [] ex_input ''run''
   \<and> (\<exists>w' registry'. register ex_manager ex_empty ex_input ''run'' = (Inr (), w')
         \<and> get_registry ex_manager (files w') = Inr registry'
         \<and> map_of registry' (hashinput ex_input) = Some ''run'')"
proof -
  have a: "register_refused ex_manager (files ex_input_only) [(hashinput ex_input, ''run'')]
             ex_input ''other''"
    by (simp add: register_refused_def)
  have b: "\<not> register_refused ex_manager (files ex_empty) [] ex_input ''run''"
    by (simp add: register_refused_def ex_empty_def isfile_def)
  from register_cases [OF ex_input_only_registry, of ex_input "''other''"] a
  have c: "\<exists>msg. register ex_manager ex_input_only ex_input ''other''
                = (Inl (NamingError msg), ex_input_only)"
    by simp
  from register_cases [OF ex_empty_registry, of ex_input "''run''"] b
  have d: "\<exists>w' registry'. register ex_manager ex_empty ex_input ''run'' = (Inr (), w')
         \<and> get_registry ex_manager (files w') = Inr registry'
         \<and> map_of registry' (hashinput ex_input) = Some ''run''"
    by auto
  from a b c d ex_input_only_registry ex_empty_registry show ?thesis by simp
qed

lemma get_registry_cong:
  "map_of fl' (registry_path m) = map_of fl (registry_path m) \<Longrightarrow>
   get_registry m fl' = get_registry m fl"
  by (simp add: get_registry_def registry_path_def isfile_def json_load_def Let_def)

lemma get_registry_delete:
  "p \<noteq> registry_path m \<Longrightarrow> get_registry m (AList.delete p fl) = get_registry m fl"
  by (rule get_registry_cong) (simp add: delete_conv')

lemma get_registry_update:
  "p \<noteq> registry_path m \<Longrightarrow> get_registry m (AList.update p c fl) = get_registry m fl"
  by (rule get_registry_cong) (simp add: update_conv')

lemma jsonfile_eq:
  "get_registry m fl = Inr registry \<Longrightarrow>
   jsonfile m fl js = Inr (path_join (directory m) (resolve registry (hashinput js) @ ''.json''))"
  by (simp add: jsonfile_def Let_def)

lemma outfile_neq_jsonfile:
  assumes "outfile m fl js n = Inr ncfile" and "jsonfile m fl js = Inr jf"
  shows "ncfile \<noteq> jf"
proof (cases "get_registry m fl")
  case (Inl e)
  with assms show ?thesis by (simp add: jsonfile_def)
next
  case (Inr registry)
  have "sim_num n @ out_ext m \<noteq> ''.json''"
    by (auto simp: sim_num_def out_ext_def Cons_eq_append_conv)
  then have "path_join (directory m) (resolve registry (hashinput js) @ (sim_num n @ out_ext m))
      \<noteq> path_join (directory m) (resolve registry (hashinput js) @ ''.json'')"
    by (subst path_join_common_prefix) (auto simp: hd_append sim_num_def out_ext_def)
  with assms Inr show ?thesis
    by (auto simp: outfile_eq jsonfile_eq)
qed

lemma isfile_set_registry_other:
  "p \<noteq> registry_path m \<Longrightarrow> isfile (set_registry m r fl) p = isfile fl p"
  by (simp add: isfile_def set_registry_other registry_path_def)

lemma outfile_cong:
  "get_registry m fl' = get_registry m fl \<Longrightarrow> outfile m fl' js n = outfile m fl js n"
  by (simp add: outfile_def)

lemma jsonfile_cong:
  "get_registry m fl' = get_registry m fl \<Longrightarrow> jsonfile m fl' js = jsonfile m fl js"
  by (simp add: jsonfile_def)

text \<open>
  What \<open>delete js n\<close> does where the files it removes are there: with the output of
  index \<open>n\<close> present (neither it nor the input file being the registry file, and the
  input file present when \<open>n = 0\<close>), it removes that output; for \<open>n = 0\<close> it also
  removes the input file and the key's binding, keeping every other binding and every
  other file; for any other \<open>n\<close> it removes nothing else.
\<close>

theorem delete_effect:
  assumes reg: "get_registry m (files w) = Inr registry"
    and out: "outfile m (files w) js n = Inr ncfile"
    and inp: "jsonfile m (files w) js = Inr jf"
    and present: "isfile (files w) ncfile"
    and nr: "ncfile \<noteq> registry_path m" "jf \<noteq> registry_path m"
    and inp_present: "n = 0 \<Longrightarrow> isfile (files w) jf"
  shows "\<exists>w'. delete m w js n = (Inr (), w') \<and> calls w' = calls w \<and> printed w' = printed w
           \<and> \<not> isfile (files w') ncfile
           \<and> (if n = 0
               then \<not> isfile (files w') jf
                    \<and> (\<exists>registry'. get_registry m (files w') = Inr registry'
                          \<and> map_of registry' (hashinput js) = None
                          \<and> (\<forall>key. key \<noteq> hashinput js
                                 \<longrightarrow> map_of registry' key = map_of registry key))
                    \<and> (\<forall>p. p \<notin> {ncfile, jf, registry_path m}
                           \<longrightarrow> map_of (files w') p = map_of (files w) p)
               else get_registry m (files w') = Inr registry
                    \<and> map_of (files w') jf = map_of (files w) jf
                    \<and> (\<forall>p. p \<noteq> ncfile \<longrightarrow> map_of (files w') p = map_of (files w) p))"
proof (cases "n = 0")
  case False
  let ?w = "w\<lparr>files := AList.delete ncfile (files w)\<rparr>"
  from out present False have "delete m w js n = (Inr (), ?w)"
    by (simp add: delete_def)
  moreover have "get_registry m (files ?w) = Inr registry"
    using reg nr(1) by (simp add: get_registry_delete)
  moreover have "ncfile \<noteq> jf" using out inp by (rule outfile_neq_jsonfile)
  ultimately show ?thesis using False
    by (simp add: delete_conv')
next
  case True
  let ?h = "hashinput js"
  let ?fl1 = "AList.delete ncfile (files w)"
  let ?fl2 = "AList.delete jf ?fl1"
  let ?r1 = "if map_of registry ?h \<noteq> None then AList.delete ?h registry else registry"
  let ?w = "w\<lparr>files := set_registry m ?r1 ?fl2\<rparr>"
  have ne: "ncfile \<noteq> jf" using out inp by (rule outfile_neq_jsonfile)
  have r1: "get_registry m ?fl1 = Inr registry"
    using reg nr(1) by (simp add: get_registry_delete)
  then have j1: "jsonfile m ?fl1 js = Inr jf"
    using inp reg by (simp add: jsonfile_eq)
  have p1: "isfile ?fl1 jf" using inp_present True ne by simp
  have r2: "get_registry m ?fl2 = Inr registry"
    using r1 nr(2) by (simp add: get_registry_delete)
  have d: "delete m w js n = (Inr (), ?w)"
    using out present True j1 p1 r2
    by (simp add: delete_def os_remove_def Let_def)
  have g: "get_registry m (files ?w) = Inr (sort_key fst ?r1)"
    by (simp add: get_registry_set_registry)
  have m1: "map_of (sort_key fst ?r1) ?h = None"
    by (simp add: map_of_sort_key delete_conv')
  have m2: "\<forall>key. key \<noteq> ?h \<longrightarrow> map_of (sort_key fst ?r1) key = map_of registry key"
    by (simp add: map_of_sort_key delete_conv')
  have f1: "\<not> isfile (files ?w) ncfile" "\<not> isfile (files ?w) jf"
    using nr by (simp_all add: isfile_set_registry_other)
  have f2: "\<forall>p. p \<notin> {ncfile, jf, registry_path m}
      \<longrightarrow> map_of (files ?w) p = map_of (files w) p"
    by (simp add: set_registry_other registry_path_def delete_conv')
  from d g m1 m2 f1 f2 True show ?thesis
    by (intro exI [of _ ?w]) simp
qed

lemma ex_stored_facts:
  "get_registry ex_manager (files ex_stored) = Inr [(hashinput ex_input, ''run'')]"
  "jsonfile ex_manager (files ex_stored) ex_input = Inr ''data/run.json''"
  "outfile ex_manager (files ex_stored) ex_input 0 = Inr ''data/run.nc''"
  "outfile ex_manager (files ex_stored) ex_input 1 = Inr ''data/run0x1.nc''"
  "registry_path ex_manager = ''data/simplesimdb.json''"
  "isfile (files ex_stored) ''data/run.json''"
  "isfile (files ex_stored) ''data/run.nc''"
  "isfile (files ex_stored) ''data/run0x1.nc''"
proof -
  show r: "get_registry ex_manager (files ex_stored) = Inr [(hashinput ex_input, ''run'')]"
    by (simp add: ex_stored_def ex_gap_registry)
  show "jsonfile ex_manager (files ex_stored) ex_input = Inr ''data/run.json''"
    by (simp add: jsonfile_eq [OF r] resolve_def) (simp add: ex_manager_def path_join_def)
  show "outfile ex_manager (files ex_stored) ex_input 0 = Inr ''data/run.nc''"
    by (simp add: outfile_eq [OF r] resolve_def sim_num_def out_ext_def)
       (simp add: ex_manager_def path_join_def)
  show "outfile ex_manager (files ex_stored) ex_input 1 = Inr ''data/run0x1.nc''"
    by (simp add: outfile_eq [OF r] resolve_def sim_num_def out_ext_def hex_digits_small
        digit_char_def)
       (simp add: ex_manager_def path_join_def)
  show "registry_path ex_manager = ''data/simplesimdb.json''"
    by (simp add: registry_path_def ex_manager_def path_join_def)
  show "isfile (files ex_stored) ''data/run.json''" "isfile (files ex_stored) ''data/run.nc''"
    "isfile (files ex_stored) ''data/run0x1.nc''"
    by (simp_all add: isfile_def ex_stored_def ex_gap_def ex_named_def)
qed

theorem delete_effect_witness:
  "get_registry ex_manager (files ex_stored) = Inr [(hashinput ex_input, ''run'')]
   \<and> jsonfile ex_manager (files ex_stored) ex_input = Inr ''data/run.json''
   \<and> outfile ex_manager (files ex_stored) ex_input 0 = Inr ''data/run.nc''
   \<and> outfile ex_manager (files ex_stored) ex_input 1 = Inr ''data/run0x1.nc''
   \<and> isfile (files ex_stored) ''data/run.json''
   \<and> isfile (files ex_stored) ''data/run.nc''
   \<and> isfile (files ex_stored) ''data/run0x1.nc''
   \<and> (\<exists>w'. delete ex_manager ex_stored ex_input 1 = (Inr (), w')
         \<and> \<not> isfile (files w') ''data/run0x1.nc''
         \<and> isfile (files w') ''data/run.nc''
         \<and> isfile (files w') ''data/run.json''
         \<and> get_registry ex_manager (files w') = Inr [(hashinput ex_input, ''run'')])
   \<and> (\<exists>w' registry'. delete ex_manager ex_stored ex_input 0 = (Inr (), w')
         \<and> \<not> isfile (files w') ''data/run.nc''
         \<and> \<not> isfile (files w') ''data/run.json''
         \<and> isfile (files w') ''data/run0x1.nc''
         \<and> get_registry ex_manager (files w') = Inr registry'
         \<and> map_of registry' (hashinput ex_input) = None)"
proof -
  note f = ex_stored_facts
  have n1: "''data/run0x1.nc'' \<noteq> registry_path ex_manager"
    "''data/run.nc'' \<noteq> registry_path ex_manager"
    "''data/run.json'' \<noteq> registry_path ex_manager"
    by (simp_all add: f(5))
  from delete_effect [OF f(1) f(4) f(2) f(8) n1(1) n1(3)]
  obtain w1 where w1: "delete ex_manager ex_stored ex_input 1 = (Inr (), w1)"
    "\<not> isfile (files w1) ''data/run0x1.nc''"
    "get_registry ex_manager (files w1) = Inr [(hashinput ex_input, ''run'')]"
    "\<forall>p. p \<noteq> ''data/run0x1.nc'' \<longrightarrow> map_of (files w1) p = map_of (files ex_stored) p"
    by auto
  from w1(4) have "map_of (files w1) ''data/run.nc'' = map_of (files ex_stored) ''data/run.nc''"
    "map_of (files w1) ''data/run.json'' = map_of (files ex_stored) ''data/run.json''"
    by simp_all
  with f(6,7) have k1: "isfile (files w1) ''data/run.nc''" "isfile (files w1) ''data/run.json''"
    by (simp_all add: isfile_def)
  from delete_effect [OF f(1) f(3) f(2) f(7) n1(2) n1(3)] f(6)
  obtain w0 registry' where w0: "delete ex_manager ex_stored ex_input 0 = (Inr (), w0)"
    "\<not> isfile (files w0) ''data/run.nc''" "\<not> isfile (files w0) ''data/run.json''"
    "get_registry ex_manager (files w0) = Inr registry'"
    "map_of registry' (hashinput ex_input) = None"
    "\<forall>p. p \<notin> {''data/run.nc'', ''data/run.json'', registry_path ex_manager}
        \<longrightarrow> map_of (files w0) p = map_of (files ex_stored) p"
    by auto
  from w0(6) have "map_of (files w0) ''data/run0x1.nc'' = map_of (files ex_stored) ''data/run0x1.nc''"
    by (simp add: f(5))
  with f(8) have k0: "isfile (files w0) ''data/run0x1.nc''"
    by (simp add: isfile_def)
  from w1(1,2,3) k1 have a: "\<exists>w'. delete ex_manager ex_stored ex_input 1 = (Inr (), w')
         \<and> \<not> isfile (files w') ''data/run0x1.nc''
         \<and> isfile (files w') ''data/run.nc''
         \<and> isfile (files w') ''data/run.json''
         \<and> get_registry ex_manager (files w') = Inr [(hashinput ex_input, ''run'')]"
    by blast
  from w0(1-5) k0 have b: "\<exists>w' registry'. delete ex_manager ex_stored ex_input 0 = (Inr (), w')
         \<and> \<not> isfile (files w') ''data/run.nc''
         \<and> \<not> isfile (files w') ''data/run.json''
         \<and> isfile (files w') ''data/run0x1.nc''
         \<and> get_registry ex_manager (files w') = Inr registry'
         \<and> map_of registry' (hashinput ex_input) = None"
    by blast
  from a b f(1-4,6-8) show ?thesis by blast
qed

lemma hex_word_length: "length (hex_word v) = 8"
  by (simp add: hex_word_def)

lemma hex_word_chars: "set (hex_word v) \<subseteq> set ''0123456789abcdef''"
proof -
  have digit: "digit_char (nat ((v div 16 ^ i) mod 16)) \<in> set ''0123456789abcdef''" for i
  proof (rule digit_char_hex)
    have "(v div 16 ^ i) mod 16 < 16" by simp
    then show "nat ((v div 16 ^ i) mod 16) < 16" by simp
  qed
  show ?thesis
    by (subst hex_word_def, subst set_map, rule image_subsetI, rule digit)
qed

lemma sha1_hexdigest_length: "length (sha1_hexdigest msg) = 40"
  by (simp add: sha1_hexdigest_def hex_word_length split: prod.splits)

lemma sha1_hexdigest_chars: "set (sha1_hexdigest msg) \<subseteq> set ''0123456789abcdef''"
proof -
  obtain h0 h1 h2 h3 h4 where "blocks sha1_init (be_words (sha1_pad msg)) = (h0, h1, h2, h3, h4)"
    by (metis prod_cases5)
  then have "set (sha1_hexdigest msg)
      = set (hex_word h0) \<union> set (hex_word h1) \<union> set (hex_word h2) \<union> set (hex_word h3)
          \<union> set (hex_word h4)"
    by (auto simp: sha1_hexdigest_def)
  then show ?thesis
    using hex_word_chars [of h0] hex_word_chars [of h1] hex_word_chars [of h2]
      hex_word_chars [of h3] hex_word_chars [of h4]
    by blast
qed

lemma hashinput_length: "length (hashinput js) = 40"
  by (simp add: hashinput_def Let_def sha1_hexdigest_length)

lemma hashinput_chars: "set (hashinput js) \<subseteq> set ''0123456789abcdef''"
  using sha1_hexdigest_chars by (simp add: hashinput_def Let_def)

lemma hashinput_head: "hashinput js \<noteq> [] \<and> hd (hashinput js) \<noteq> CHR ''/''"
proof -
  have ne: "hashinput js \<noteq> []" using hashinput_length [of js] by auto
  then have "hd (hashinput js) \<in> set (hashinput js)" by simp
  with hashinput_chars [of js] have "hd (hashinput js) \<in> set ''0123456789abcdef''" by blast
  with ne show ?thesis by auto
qed

lemma raw_jsonfile_not_registry:
  "path_join (directory m) (hashinput js @ ''.json'') \<noteq> registry_path m"
proof
  assume "path_join (directory m) (hashinput js @ ''.json'') = registry_path m"
  then have eq: "path_join (directory m) (hashinput js @ ''.json'')
      = path_join (directory m) ''simplesimdb.json''"
    by (simp add: registry_path_def)
  have "hashinput js @ ''.json'' = ''simplesimdb.json''"
    by (rule path_join_same_head [OF _ eq]) (use hashinput_head [of js] in \<open>simp add: hd_append\<close>)
  then have "length (hashinput js @ ''.json'') = length ''simplesimdb.json''" by simp
  then show False by (simp add: hashinput_length)
qed

lemma input_write_keeps_registry:
  assumes "jsonfile m fl js = Inr jf" and "\<not> isfile fl jf"
  shows "get_registry m (json_dump js jf fl) = get_registry m fl"
proof -
  have "jf \<noteq> registry_path m"
  proof
    assume eq: "jf = registry_path m"
    with assms(2) have "get_registry m fl = Inr []"
      by (simp add: get_registry_def registry_path_def)
    with assms(1) have "jf = path_join (directory m) (hashinput js @ ''.json'')"
      by (simp add: jsonfile_eq resolve_def)
    with eq raw_jsonfile_not_registry [of m js] show False by simp
  qed
  then show ?thesis by (simp add: json_dump_def get_registry_update)
qed

lemma register_frame:
  "register m w js name = (r, w1) \<Longrightarrow> calls w1 = calls w \<and> printed w1 = printed w"
  by (auto simp: register_def Let_def split: sum.splits option.splits if_splits)

lemma register_if_named_frame:
  "register_if_named m w js name = (r, w1) \<Longrightarrow> calls w1 = calls w \<and> printed w1 = printed w"
  by (auto simp: register_if_named_def dest: register_frame split: if_splits)

lemma create_miss:
  assumes step: "register_if_named m w js name = (Inr (), w1)"
    and out: "outfile m (files w1) js n = Inr ncfile"
    and miss: "\<not> isfile (files w1) ncfile"
    and inp: "jsonfile m (files w1) js = Inr jf"
    and prev: "outfile m (files w1) js (n - 1) = Inr previous_ncfile"
    and p: "p = run (run_argv m jf ncfile n previous_ncfile) (input_written js jf (files w1))"
    and w4: "w4 = w1\<lparr>files := files_after p,
                      calls := calls w @ [run_argv m jf ncfile n previous_ncfile],
                      printed := printed w @ [running_msg js ncfile]\<rparr>"
  shows "create run m w js n name err sout =
           (if returncode p = 0
            then (Inr ncfile, if sout = ''display'' then print (stdout p) w4 else w4)
            else create_failed m w4 js n ncfile err p)"
proof -
  from step have fr: "calls w1 = calls w" "printed w1 = printed w"
    by (auto dest: register_if_named_frame)
  let ?w2 = "print (running_msg js ncfile) w1"
  let ?w3 = "?w2\<lparr>files := input_written js jf (files w1)\<rparr>"
  have reg3: "get_registry m (files ?w3) = get_registry m (files w1)"
    using inp by (auto simp: input_written_def input_write_keeps_registry)
  have j3: "jsonfile m (files ?w3) js = Inr jf"
    using inp jsonfile_cong [OF reg3] by simp
  have o3: "outfile m (files ?w3) js (n - 1) = Inr previous_ncfile"
    using prev outfile_cong [OF reg3] by simp
  have run: "create_run run m ?w3 js n ncfile err sout =
           (if returncode p = 0
            then (Inr ncfile, if sout = ''display'' then print (stdout p) w4 else w4)
            else create_failed m w4 js n ncfile err p)"
    using j3 o3 fr
    by (cases w1)
       (simp add: create_run_def subprocess_run_def Let_def p w4 run_argv_def print_def)
  have "create run m w js n name err sout = create_run run m ?w3 js n ncfile err sout"
    using step out miss inp
    by (simp add: create_def Let_def running_msg_def input_written_def print_def)
  with run show ?thesis by simp
qed

lemma create_failed_effect:
  assumes inp: "jsonfile m (files w) js = Inr jf"
    and ne: "ncfile \<noteq> jf"
    and nr: "ncfile \<noteq> registry_path m"
    and inp_there: "n = 0 \<longrightarrow> isfile (files w) jf"
  shows "\<exists>w'. create_failed m w js n ncfile err p =
              (if err = ''raise'' then Inl (CalledProcessError (returncode p) (stderr p))
               else Inr ncfile, w')
           \<and> \<not> isfile (files w') ncfile
           \<and> (if n = 0 then \<not> isfile (files w') jf
               else map_of (files w') jf = map_of (files w) jf)
           \<and> (\<forall>q. q \<noteq> ncfile \<and> (n = 0 \<longrightarrow> q \<noteq> jf)
                  \<longrightarrow> map_of (files w') q = map_of (files w) q)
           \<and> printed w' = printed w @ (if err = ''display'' then [stderr p] else [])
           \<and> calls w' = calls w"
proof -
  let ?w1 = "if isfile (files w) ncfile then w\<lparr>files := AList.delete ncfile (files w)\<rparr> else w"
  have f1: "map_of (files ?w1) = (map_of (files w))(ncfile := None)"
    by (auto simp: delete_conv' isfile_def)
  have c1: "calls ?w1 = calls w" "printed ?w1 = printed w" by simp_all
  have "map_of (files ?w1) (registry_path m) = map_of (files w) (registry_path m)"
    using nr by (simp add: f1)
  then have "get_registry m (files ?w1) = get_registry m (files w)"
    by (rule get_registry_cong)
  then have "jsonfile m (files ?w1) js = jsonfile m (files w) js"
    by (rule jsonfile_cong)
  with inp have j1: "jsonfile m (files ?w1) js = Inr jf"
    by simp
  show ?thesis
  proof (cases "n = 0")
    case True
    then have there: "isfile (files ?w1) jf"
      using inp_there ne by (simp add: isfile_def f1)
    let ?w2 = "?w1\<lparr>files := AList.delete jf (files ?w1)\<rparr>"
    let ?w3 = "if err = ''display'' then print (stderr p) ?w2 else ?w2"
    have "create_failed m w js n ncfile err p =
            (if err = ''raise'' then Inl (CalledProcessError (returncode p) (stderr p))
             else Inr ncfile, ?w3)"
      using True j1 there by (simp add: create_failed_def Let_def os_remove_def)
    moreover have "map_of (files ?w3) = (map_of (files w))(ncfile := None, jf := None)"
      by (simp add: print_def delete_conv' f1)
    moreover have "printed ?w3 = printed w @ (if err = ''display'' then [stderr p] else [])"
      "calls ?w3 = calls w"
      by (simp_all add: print_def)
    ultimately show ?thesis using True
      by (intro exI [of _ ?w3]) (simp add: isfile_def)
  next
    case False
    let ?w3 = "if err = ''display'' then print (stderr p) ?w1 else ?w1"
    have "create_failed m w js n ncfile err p =
            (if err = ''raise'' then Inl (CalledProcessError (returncode p) (stderr p))
             else Inr ncfile, ?w3)"
      using False by (simp add: create_failed_def Let_def)
    moreover have "map_of (files ?w3) = (map_of (files w))(ncfile := None)"
      by (simp add: print_def f1)
    moreover have "printed ?w3 = printed w @ (if err = ''display'' then [stderr p] else [])"
      "calls ?w3 = calls w"
      by (simp_all add: print_def)
    ultimately show ?thesis using False ne
      by (intro exI [of _ ?w3]) (simp add: isfile_def)
  qed
qed

lemma create_failed_calls: "calls (snd (create_failed m w js n ncfile err p)) = calls w"
  by (simp add: create_failed_def Let_def print_def split: sum.splits)

text \<open>
  Claim C7. On a cache miss \<open>create js n\<close> starts the executable once, with the
  arguments executable, input path, output path when \<open>n = 0\<close>, and with the output
  path of index \<open>n - 1\<close> as a fourth argument otherwise.
\<close>

theorem create_invocation:
  assumes step: "register_if_named m w js name = (Inr (), w1)"
    and out: "outfile m (files w1) js n = Inr ncfile"
    and miss: "\<not> isfile (files w1) ncfile"
    and inp: "jsonfile m (files w1) js = Inr jf"
    and prev: "outfile m (files w1) js (n - 1) = Inr previous_ncfile"
  shows "calls (snd (create run m w js n name err sout)) =
           calls w @ [if n = 0 then [executable m, jf, ncfile]
                      else [executable m, jf, ncfile, previous_ncfile]]"
proof -
  define p where "p = run (run_argv m jf ncfile n previous_ncfile) (input_written js jf (files w1))"
  define w4 where "w4 = w1\<lparr>files := files_after p,
                      calls := calls w @ [run_argv m jf ncfile n previous_ncfile],
                      printed := printed w @ [running_msg js ncfile]\<rparr>"
  have "create run m w js n name err sout =
           (if returncode p = 0
            then (Inr ncfile, if sout = ''display'' then print (stdout p) w4 else w4)
            else create_failed m w4 js n ncfile err p)"
    using step out miss inp prev p_def w4_def by (rule create_miss)
  then have "calls (snd (create run m w js n name err sout)) = calls w4"
    by (simp add: create_failed_calls print_def)
  then show ?thesis by (simp add: w4_def run_argv_def)
qed

text \<open>
  Claim C2. When the executable exits nonzero on a cache miss (it left the registry
  and, for \<open>n = 0\<close>, the input file in place, and the output path is not the registry
  file), the output file is gone afterwards, the input file is removed for \<open>n = 0\<close>
  and kept otherwise, every other file is as the executable left it, and the error
  policy decides the result: \<^verbatim>\<open>raise\<close> gives the CalledProcessError, \<^verbatim>\<open>display\<close>
  prints the captured stderr and returns the output path, anything else returns the
  output path.
\<close>

theorem create_failure:
  assumes step: "register_if_named m w js name = (Inr (), w1)"
    and out: "outfile m (files w1) js n = Inr ncfile"
    and miss: "\<not> isfile (files w1) ncfile"
    and inp: "jsonfile m (files w1) js = Inr jf"
    and prev: "outfile m (files w1) js (n - 1) = Inr previous_ncfile"
    and p: "p = run (run_argv m jf ncfile n previous_ncfile) (input_written js jf (files w1))"
    and fail: "returncode p \<noteq> 0"
    and keep: "get_registry m (files_after p) = get_registry m (files w1)"
    and nr: "ncfile \<noteq> registry_path m"
    and inp_there: "n = 0 \<longrightarrow> isfile (files_after p) jf"
  shows "\<exists>w'. create run m w js n name err sout =
              (if err = ''raise'' then Inl (CalledProcessError (returncode p) (stderr p))
               else Inr ncfile, w')
           \<and> \<not> isfile (files w') ncfile
           \<and> (if n = 0 then \<not> isfile (files w') jf
               else map_of (files w') jf = map_of (files_after p) jf)
           \<and> (\<forall>q. q \<noteq> ncfile \<and> (n = 0 \<longrightarrow> q \<noteq> jf)
                  \<longrightarrow> map_of (files w') q = map_of (files_after p) q)
           \<and> printed w' = printed w @ [running_msg js ncfile]
                             @ (if err = ''display'' then [stderr p] else [])
           \<and> calls w' = calls w @ [run_argv m jf ncfile n previous_ncfile]"
proof -
  define w4 where "w4 = w1\<lparr>files := files_after p,
                      calls := calls w @ [run_argv m jf ncfile n previous_ncfile],
                      printed := printed w @ [running_msg js ncfile]\<rparr>"
  have "create run m w js n name err sout =
           (if returncode p = 0
            then (Inr ncfile, if sout = ''display'' then print (stdout p) w4 else w4)
            else create_failed m w4 js n ncfile err p)"
    using step out miss inp prev p w4_def by (rule create_miss)
  with fail have c: "create run m w js n name err sout = create_failed m w4 js n ncfile err p"
    by simp
  have "get_registry m (files w4) = get_registry m (files w1)"
    using keep by (simp add: w4_def)
  then have "jsonfile m (files w4) js = jsonfile m (files w1) js"
    by (rule jsonfile_cong)
  with inp have j4: "jsonfile m (files w4) js = Inr jf"
    by simp
  have ne: "ncfile \<noteq> jf" using out inp by (rule outfile_neq_jsonfile)
  have there: "n = 0 \<longrightarrow> isfile (files w4) jf"
    using inp_there by (simp add: w4_def)
  have f4: "files w4 = files_after p" "printed w4 = printed w @ [running_msg js ncfile]"
    "calls w4 = calls w @ [run_argv m jf ncfile n previous_ncfile]"
    by (simp_all add: w4_def)
  from create_failed_effect [OF j4 ne nr there, where err = err and p = p]
  show ?thesis unfolding c f4 by simp
qed

lemma ex_paths:
  assumes "get_registry ex_manager fl = Inr [(hashinput ex_input, ''run'')]"
  shows "jsonfile ex_manager fl ex_input = Inr ''data/run.json''"
    and "outfile ex_manager fl ex_input 0 = Inr ''data/run.nc''"
    and "outfile ex_manager fl ex_input (0 - 1) = Inr ''data/run.nc''"
    and "outfile ex_manager fl ex_input 1 = Inr ''data/run0x1.nc''"
    and "outfile ex_manager fl ex_input (1 - 1) = Inr ''data/run.nc''"
proof -
  show "jsonfile ex_manager fl ex_input = Inr ''data/run.json''"
    by (simp add: jsonfile_eq [OF assms] resolve_def) (simp add: ex_manager_def path_join_def)
  show "outfile ex_manager fl ex_input 0 = Inr ''data/run.nc''"
    by (simp add: outfile_eq [OF assms] resolve_def sim_num_def out_ext_def)
       (simp add: ex_manager_def path_join_def)
  then show "outfile ex_manager fl ex_input (1 - 1) = Inr ''data/run.nc''" by simp
  show "outfile ex_manager fl ex_input (0 - 1) = Inr ''data/run.nc''"
    by (simp add: outfile_eq [OF assms] resolve_def sim_num_def out_ext_def)
       (simp add: ex_manager_def path_join_def)
  show "outfile ex_manager fl ex_input 1 = Inr ''data/run0x1.nc''"
    by (simp add: outfile_eq [OF assms] resolve_def sim_num_def out_ext_def hex_digits_small
        digit_char_def)
       (simp add: ex_manager_def path_join_def)
qed

lemma ex_registered_registry:
  "get_registry ex_manager (files ex_registered) = Inr [(hashinput ex_input, ''run'')]"
  by (simp add: ex_registered_def ex_named_registry)

lemma ex_first_registry:
  "get_registry ex_manager (files ex_first) = Inr [(hashinput ex_input, ''run'')]"
  by (simp add: get_registry_def ex_manager_def ex_named_def ex_first_def path_join_def
      isfile_def json_load_def registry_doc_def)

lemma ex_registry_path: "registry_path ex_manager = ''data/simplesimdb.json''"
  by (simp add: registry_path_def ex_manager_def path_join_def)

theorem create_invocation_witness:
  "register_if_named ex_manager ex_first ex_input [] = (Inr (), ex_first)
   \<and> outfile ex_manager (files ex_first) ex_input 1 = Inr ''data/run0x1.nc''
   \<and> \<not> isfile (files ex_first) ''data/run0x1.nc''
   \<and> jsonfile ex_manager (files ex_first) ex_input = Inr ''data/run.json''
   \<and> outfile ex_manager (files ex_first) ex_input (1 - 1) = Inr ''data/run.nc''
   \<and> calls (snd (create ex_runner_ok ex_manager ex_first ex_input 1 [] ''raise'' ''ignore''))
       = [[''./execute.sh'', ''data/run.json'', ''data/run0x1.nc'', ''data/run.nc'']]
   \<and> register_if_named ex_manager ex_registered ex_input [] = (Inr (), ex_registered)
   \<and> outfile ex_manager (files ex_registered) ex_input 0 = Inr ''data/run.nc''
   \<and> \<not> isfile (files ex_registered) ''data/run.nc''
   \<and> calls (snd (create ex_runner_ok ex_manager ex_registered ex_input 0 [] ''raise'' ''ignore''))
       = [[''./execute.sh'', ''data/run.json'', ''data/run.nc'']]"
proof -
  note a = ex_paths [OF ex_first_registry]
  note b = ex_paths [OF ex_registered_registry]
  have s1: "register_if_named ex_manager ex_first ex_input [] = (Inr (), ex_first)"
    and s0: "register_if_named ex_manager ex_registered ex_input [] = (Inr (), ex_registered)"
    by (simp_all add: register_if_named_def)
  have m1: "\<not> isfile (files ex_first) ''data/run0x1.nc''"
    by (simp add: isfile_def ex_first_def ex_named_def)
  have m0: "\<not> isfile (files ex_registered) ''data/run.nc''"
    by (simp add: isfile_def ex_registered_def ex_named_def)
  have c1: "calls (snd (create ex_runner_ok ex_manager ex_first ex_input 1 [] ''raise'' ''ignore''))
       = [[''./execute.sh'', ''data/run.json'', ''data/run0x1.nc'', ''data/run.nc'']]"
    using create_invocation [OF s1 a(4) m1 a(1) a(5), where run = ex_runner_ok
        and err = "''raise''" and sout = "''ignore''"]
    by (simp add: ex_first_def ex_manager_def)
  have c0: "calls (snd (create ex_runner_ok ex_manager ex_registered ex_input 0 [] ''raise'' ''ignore''))
       = [[''./execute.sh'', ''data/run.json'', ''data/run.nc'']]"
    using create_invocation [OF s0 b(2) m0 b(1) b(3), where run = ex_runner_ok
        and err = "''raise''" and sout = "''ignore''"]
    by (simp add: ex_registered_def ex_manager_def)
  from s1 s0 m1 m0 c1 c0 a(1,4,5) b(2) show ?thesis by simp
qed

theorem create_failure_witness:
  "returncode (ex_runner_fail [''./execute.sh'', ''data/run.json'', ''data/run.nc'']
      (input_written ex_input ''data/run.json'' (files ex_registered))) \<noteq> 0
   \<and> (\<exists>w'. create ex_runner_fail ex_manager ex_registered ex_input 0 [] ''display'' ''ignore''
              = (Inr ''data/run.nc'', w')
         \<and> \<not> isfile (files w') ''data/run.nc''
         \<and> \<not> isfile (files w') ''data/run.json''
         \<and> printed w' = [running_msg ex_input ''data/run.nc'', ''boom''])
   \<and> (\<exists>w'. create ex_runner_fail ex_manager ex_first ex_input 1 [] ''raise'' ''ignore''
              = (Inl (CalledProcessError 1 ''boom''), w')
         \<and> \<not> isfile (files w') ''data/run0x1.nc''
         \<and> isfile (files w') ''data/run.json'')"
proof -
  note a = ex_paths [OF ex_first_registry]
  note b = ex_paths [OF ex_registered_registry]
  have s1: "register_if_named ex_manager ex_first ex_input [] = (Inr (), ex_first)"
    and s0: "register_if_named ex_manager ex_registered ex_input [] = (Inr (), ex_registered)"
    by (simp_all add: register_if_named_def)
  have m1: "\<not> isfile (files ex_first) ''data/run0x1.nc''"
    by (simp add: isfile_def ex_first_def ex_named_def)
  have m0: "\<not> isfile (files ex_registered) ''data/run.nc''"
    by (simp add: isfile_def ex_registered_def ex_named_def)
  define p0 where "p0 = ex_runner_fail (run_argv ex_manager ''data/run.json'' ''data/run.nc'' 0
      ''data/run.nc'') (input_written ex_input ''data/run.json'' (files ex_registered))"
  define p1 where "p1 = ex_runner_fail (run_argv ex_manager ''data/run.json'' ''data/run0x1.nc'' 1
      ''data/run.nc'') (input_written ex_input ''data/run.json'' (files ex_first))"
  have fa0: "files_after p0 = AList.update ''data/run.nc'' (Opaque ''partial'')
      (json_dump ex_input ''data/run.json'' (files ex_registered))"
    by (simp add: p0_def ex_runner_fail_def run_argv_def input_written_def isfile_def
        ex_registered_def ex_named_def)
  have fa1: "files_after p1 = AList.update ''data/run0x1.nc'' (Opaque ''partial'') (files ex_first)"
    by (simp add: p1_def ex_runner_fail_def run_argv_def input_written_def isfile_def
        ex_first_def ex_named_def)
  have rc: "returncode p0 = 1" "stderr p0 = ''boom''" "returncode p1 = 1" "stderr p1 = ''boom''"
    by (simp_all add: p0_def p1_def ex_runner_fail_def)
  have k0: "get_registry ex_manager (files_after p0) = get_registry ex_manager (files ex_registered)"
    by (simp add: fa0 json_dump_def get_registry_update ex_registry_path)
  have k1: "get_registry ex_manager (files_after p1) = get_registry ex_manager (files ex_first)"
    by (simp add: fa1 get_registry_update ex_registry_path)
  have i0: "0 = (0::int) \<longrightarrow> isfile (files_after p0) ''data/run.json''"
    by (simp add: fa0 json_dump_def)
  have i1: "isfile (files_after p1) ''data/run.json''"
    by (simp add: fa1) (simp add: isfile_def ex_first_def ex_named_def)
  have n0: "''data/run.nc'' \<noteq> registry_path ex_manager"
    and n1: "''data/run0x1.nc'' \<noteq> registry_path ex_manager"
    by (simp_all add: ex_registry_path)
  have f0: "returncode p0 \<noteq> 0" and f1: "returncode p1 \<noteq> 0" by (simp_all add: rc)
  from create_failure [where run = ex_runner_fail and err = "''display''" and sout = "''ignore''",
      OF s0 b(2) m0 b(1) b(3) p0_def f0 k0 n0 i0]
  have r0: "\<exists>w'. create ex_runner_fail ex_manager ex_registered ex_input 0 [] ''display'' ''ignore''
              = (Inr ''data/run.nc'', w')
         \<and> \<not> isfile (files w') ''data/run.nc''
         \<and> \<not> isfile (files w') ''data/run.json''
         \<and> printed w' = [running_msg ex_input ''data/run.nc'', ''boom'']"
    by (auto simp: rc ex_registered_def)
  have i1': "1 = (0::int) \<longrightarrow> isfile (files_after p1) ''data/run.json''" by simp
  from create_failure [where run = ex_runner_fail and err = "''raise''" and sout = "''ignore''",
      OF s1 a(4) m1 a(1) a(5) p1_def f1 k1 n1 i1']
  obtain w1 where w1: "create ex_runner_fail ex_manager ex_first ex_input 1 [] ''raise'' ''ignore''
              = (Inl (CalledProcessError 1 ''boom''), w1)"
      "\<not> isfile (files w1) ''data/run0x1.nc''"
      "map_of (files w1) ''data/run.json'' = map_of (files_after p1) ''data/run.json''"
    by (auto simp: rc)
  from w1(3) i1 have "isfile (files w1) ''data/run.json''" by (simp add: isfile_def)
  with w1(1,2) have r1: "\<exists>w'. create ex_runner_fail ex_manager ex_first ex_input 1 [] ''raise'' ''ignore''
              = (Inl (CalledProcessError 1 ''boom''), w')
         \<and> \<not> isfile (files w') ''data/run0x1.nc''
         \<and> isfile (files w') ''data/run.json''"
    by blast
  have "returncode (ex_runner_fail [''./execute.sh'', ''data/run.json'', ''data/run.nc'']
      (input_written ex_input ''data/run.json'' (files ex_registered))) \<noteq> 0"
    by (simp add: ex_runner_fail_def)
  with r0 r1 show ?thesis by blast
qed

lemma registry_doc_sorted:
  "sort_keys (registry_doc r) = JObj (map (map_prod id JStr) (sort_key fst r))"
proof -
  have "map (map_prod id sort_keys) (map (map_prod id JStr) r) = map (map_prod id JStr) r"
    by (induction r) auto
  then have "sort_keys (registry_doc r) = JObj (sort_key fst (map (map_prod id JStr) r))"
    by (simp only: registry_doc_def sort_keys.simps)
  also have "sort_key fst (map (map_prod id JStr) r) = map (map_prod id JStr) (sort_key fst r)"
    by (rule sort_key_map_keep) simp
  finally show ?thesis .
qed

lemma registry_doc_sorted_twice:
  "sort_keys (registry_doc (sort_key fst r)) = sort_keys (registry_doc r)"
  by (simp add: registry_doc_sorted sort_key_id_if_sorted)

lemma register_success_form:
  assumes "register m w js name = (Inr (), w1)"
  shows "\<exists>r1. name \<noteq> ''simplesimdb'' \<and> map_of r1 (hashinput js) = Some name
           \<and> \<not> name_clash r1 (hashinput js) name
           \<and> w1 = w\<lparr>files := set_registry m r1 (files w)\<rparr>"
proof (cases "get_registry m (files w)")
  case (Inl e)
  with assms show ?thesis by (simp add: register_def)
next
  case (Inr registry)
  show ?thesis
  proof (cases "map_of registry (hashinput js)")
    case None
    with assms Inr show ?thesis
      by (intro exI [of _ "AList.update (hashinput js) name registry"])
         (auto simp: register_def Let_def update_conv' split: if_splits)
  next
    case (Some known)
    with assms Inr show ?thesis
      by (intro exI [of _ registry]) (auto simp: register_def Let_def split: if_splits)
  qed
qed

lemma register_again:
  assumes first: "register m w js name = (Inr (), w1)"
    and same: "map_of (files w') (registry_path m) = map_of (files w1) (registry_path m)"
  shows "register m w' js name = (Inr (), w')"
proof -
  from register_success_form [OF first] obtain r1 where
    r1: "name \<noteq> ''simplesimdb''" "map_of r1 (hashinput js) = Some name"
      "\<not> name_clash r1 (hashinput js) name"
      "w1 = w\<lparr>files := set_registry m r1 (files w)\<rparr>"
    by blast
  from r1(2) have ne: "r1 \<noteq> []" by auto
  let ?doc = "JsonDoc (sort_keys (registry_doc r1))"
  have "map_of (files w1) (registry_path m) = Some ?doc"
    using ne by (simp add: r1(4) set_registry_def json_dump_def Let_def update_conv'
        registry_path_def)
  with same have at: "map_of (files w') (registry_path m) = Some ?doc" by simp
  then have g: "get_registry m (files w') = Inr (sort_key fst r1)"
    by (simp add: get_registry_def isfile_def json_load_def Let_def as_registry_doc
        registry_path_def)
  have ne2: "sort_key fst r1 \<noteq> []"
    using ne by (metis length_0_conv length_sort)
  have nc: "\<not> name_clash (sort_key fst r1) (hashinput js) name"
    using r1(3) by (simp add: name_clash_iff)
  have "set_registry m (sort_key fst r1) (files w')
      = AList.update (registry_path m) ?doc (files w')"
    using ne2 by (simp add: set_registry_def json_dump_def Let_def registry_doc_sorted_twice
        registry_path_def)
  also have "\<dots> = files w'" using at by (rule update_triv)
  finally have "set_registry m (sort_key fst r1) (files w') = files w'" .
  then show ?thesis
    using g r1(1,2) nc by (simp add: register_def Let_def map_of_sort_key)
qed

lemma create_failed_result:
  "create_failed m w js n ncfile err p = (Inr x, w') \<Longrightarrow> x = ncfile"
  by (auto simp: create_failed_def Let_def split: sum.splits if_splits)

lemma create_run_calls:
  "length (calls (snd (create_run run m w js n ncfile err sout))) \<le> length (calls w) + 1"
  by (auto simp: create_run_def subprocess_run_def Let_def create_failed_calls print_def
      split: sum.splits)

lemma create_run_result:
  "create_run run m w js n ncfile err sout = (Inr x, w') \<Longrightarrow> x = ncfile"
  by (auto simp: create_run_def subprocess_run_def Let_def
      split: sum.splits if_splits dest: create_failed_result)

lemma create_hit:
  assumes step: "register_if_named m w js name = (Inr (), w1)"
    and out: "outfile m (files w1) js n = Inr ncfile"
    and hit: "isfile (files w1) ncfile"
  shows "create run m w js n name err sout = (Inr ncfile, print (existing_msg js ncfile) w1)"
  using assms by (simp add: create_def Let_def existing_msg_def)

lemma create_miss_unfold:
  assumes step: "register_if_named m w js name = (Inr (), w1)"
    and out: "outfile m (files w1) js n = Inr ncfile"
    and miss: "\<not> isfile (files w1) ncfile"
    and inp: "jsonfile m (files w1) js = Inr jf"
  shows "create run m w js n name err sout =
           create_run run m
             ((print (running_msg js ncfile) w1)\<lparr>files := input_written js jf (files w1)\<rparr>)
             js n ncfile err sout"
  using step out miss inp
  by (simp add: create_def Let_def running_msg_def input_written_def print_def)

lemma create_calls_result:
  assumes step: "register_if_named m w js name = (Inr (), w1)"
    and out: "outfile m (files w1) js n = Inr ncfile"
    and c: "create run m w js n name err sout = (r, w')"
  shows "length (calls w') \<le> length (calls w) + 1 \<and> (\<forall>x. r = Inr x \<longrightarrow> x = ncfile)"
proof (cases "isfile (files w1) ncfile")
  case True
  from create_hit [OF step out True, of run err sout] c
  have "r = Inr ncfile" "w' = print (existing_msg js ncfile) w1" by simp_all
  with register_if_named_frame [OF step] show ?thesis by (simp add: print_def)
next
  case False
  let ?w2 = "print (running_msg js ncfile) w1"
  show ?thesis
  proof (cases "jsonfile m (files w1) js")
    case (Inl e)
    with step out False c have "r = Inl e" "w' = ?w2"
      by (simp_all add: create_def Let_def running_msg_def print_def)
    with register_if_named_frame [OF step] show ?thesis by (simp add: print_def)
  next
    case (Inr jf)
    let ?w3 = "?w2\<lparr>files := input_written js jf (files w1)\<rparr>"
    from create_miss_unfold [OF step out False Inr, of run err sout] c
    have cr: "create_run run m ?w3 js n ncfile err sout = (r, w')"
      by simp
    have "calls ?w3 = calls w"
      using register_if_named_frame [OF step] by (simp add: print_def)
    with create_run_calls [of run m ?w3 js n ncfile err sout] cr
    have "length (calls w') \<le> length (calls w) + 1" by simp
    moreover have "\<forall>x. r = Inr x \<longrightarrow> x = ncfile"
      using cr create_run_result by blast
    ultimately show ?thesis by simp
  qed
qed

text \<open>
  Claim C1, as amended. When the output file that \<open>(js, n)\<close> resolves to exists (the
  name, if one is given, being registered first), \<open>create\<close> returns its path and
  starts no process. Hence a second call with the same arguments, made after a call
  that left the output file in place and the registry file as its registration step
  left it (untouched, when no name is given), returns that path and starts no
  process, so that the two calls together start the executable at most once and
  every path returned is the same.
\<close>

theorem create_cached:
  assumes step: "register_if_named m w js name = (Inr (), w1)"
    and out: "outfile m (files w1) js n = Inr ncfile"
  shows "(isfile (files w1) ncfile \<longrightarrow>
            create run m w js n name err sout = (Inr ncfile, print (existing_msg js ncfile) w1)
            \<and> calls (print (existing_msg js ncfile) w1) = calls w)
         \<and> (\<forall>r w'. create run m w js n name err sout = (r, w')
                \<and> isfile (files w') ncfile
                \<and> map_of (files w') (registry_path m) = map_of (files w1) (registry_path m)
              \<longrightarrow> create run m w' js n name err sout
                    = (Inr ncfile, print (existing_msg js ncfile) w')
                  \<and> calls (print (existing_msg js ncfile) w') = calls w'
                  \<and> length (calls w') \<le> length (calls w) + 1
                  \<and> (\<forall>x. r = Inr x \<longrightarrow> x = ncfile))"
proof (intro conjI allI impI)
  assume hit: "isfile (files w1) ncfile"
  show "create run m w js n name err sout = (Inr ncfile, print (existing_msg js ncfile) w1)"
    using step out hit by (rule create_hit)
  show "calls (print (existing_msg js ncfile) w1) = calls w"
    using register_if_named_frame [OF step] by (simp add: print_def)
next
  fix r w'
  assume a: "create run m w js n name err sout = (r, w')
      \<and> isfile (files w') ncfile
      \<and> map_of (files w') (registry_path m) = map_of (files w1) (registry_path m)"
  then have same: "map_of (files w') (registry_path m) = map_of (files w1) (registry_path m)"
    and hit: "isfile (files w') ncfile" and c: "create run m w js n name err sout = (r, w')"
    by simp_all
  have step': "register_if_named m w' js name = (Inr (), w')"
  proof (cases "name = []")
    case True
    then show ?thesis by (simp add: register_if_named_def)
  next
    case False
    with step have "register m w js name = (Inr (), w1)" by (simp add: register_if_named_def)
    from register_again [OF this same] False show ?thesis by (simp add: register_if_named_def)
  qed
  have "get_registry m (files w') = get_registry m (files w1)"
    using same by (rule get_registry_cong)
  then have "outfile m (files w') js n = outfile m (files w1) js n" by (rule outfile_cong)
  with out have out': "outfile m (files w') js n = Inr ncfile" by simp
  show "create run m w' js n name err sout = (Inr ncfile, print (existing_msg js ncfile) w')"
    using step' out' hit by (rule create_hit)
  show "calls (print (existing_msg js ncfile) w') = calls w'" by (simp add: print_def)
  from create_calls_result [OF step out c]
  show "length (calls w') \<le> length (calls w) + 1" by simp
  fix x assume "r = Inr x"
  with create_calls_result [OF step out c] show "x = ncfile" by simp
qed

lemma ex_fail_once:
  "create ex_runner_fail ex_manager \<lparr>files = ex_named, calls = cs, printed = ps\<rparr>
       ex_input 0 [] ''ignore'' ''ignore''
     = (Inr ''data/run.nc'',
        \<lparr>files = ex_named,
         calls = cs @ [[''./execute.sh'', ''data/run.json'', ''data/run.nc'']],
         printed = ps @ [running_msg ex_input ''data/run.nc'']\<rparr>)"
proof -
  let ?w = "\<lparr>files = ex_named, calls = cs, printed = ps\<rparr>"
  let ?argv = "run_argv ex_manager ''data/run.json'' ''data/run.nc'' 0 ''data/run.nc''"
  have reg: "get_registry ex_manager (files ?w) = Inr [(hashinput ex_input, ''run'')]"
    by (simp add: ex_named_registry)
  note b = ex_paths [OF reg]
  have s0: "register_if_named ex_manager ?w ex_input [] = (Inr (), ?w)"
    by (simp add: register_if_named_def)
  have m0: "\<not> isfile (files ?w) ''data/run.nc''" and mj: "\<not> isfile ex_named ''data/run.json''"
    by (simp_all add: isfile_def ex_named_def)
  define p where "p = ex_runner_fail ?argv (input_written ex_input ''data/run.json'' (files ?w))"
  define w4 where "w4 = ?w\<lparr>files := files_after p, calls := calls ?w @ [?argv],
      printed := printed ?w @ [running_msg ex_input ''data/run.nc'']\<rparr>"
  have argv: "?argv = [''./execute.sh'', ''data/run.json'', ''data/run.nc'']"
    by (simp add: run_argv_def ex_manager_def)
  have fa: "files_after p = AList.update ''data/run.nc'' (Opaque ''partial'')
      (AList.update ''data/run.json'' (JsonDoc (sort_keys ex_input)) ex_named)"
    using mj by (simp add: p_def ex_runner_fail_def argv input_written_def json_dump_def)
  have rc: "returncode p = 1" by (simp add: p_def ex_runner_fail_def)
  have "create ex_runner_fail ex_manager ?w ex_input 0 [] ''ignore'' ''ignore'' =
           (if returncode p = 0
            then (Inr ''data/run.nc'', if ''ignore'' = ''display'' then print (stdout p) w4 else w4)
            else create_failed ex_manager w4 ex_input 0 ''data/run.nc'' ''ignore'' p)"
    using s0 b(2) m0 b(1) b(3) p_def w4_def by (rule create_miss)
  then have c: "create ex_runner_fail ex_manager ?w ex_input 0 [] ''ignore'' ''ignore'' =
      create_failed ex_manager w4 ex_input 0 ''data/run.nc'' ''ignore'' p"
    by (simp add: rc)
  let ?fl1 = "AList.delete ''data/run.nc'' (files w4)"
  have f1: "?fl1 = AList.update ''data/run.json'' (JsonDoc (sort_keys ex_input)) ex_named"
    by (simp add: w4_def fa delete_update_same delete_update) (simp add: ex_named_def)
  have "get_registry ex_manager ?fl1 = get_registry ex_manager ex_named"
    unfolding f1 by (rule get_registry_update) (simp add: ex_registry_path)
  with ex_named_registry have "get_registry ex_manager ?fl1 = Inr [(hashinput ex_input, ''run'')]"
    by simp
  from ex_paths(1) [OF this] have j1: "jsonfile ex_manager ?fl1 ex_input = Inr ''data/run.json''" .
  have f2: "AList.delete ''data/run.json'' ?fl1 = ex_named"
    unfolding f1 by (simp add: delete_update_same) (simp add: ex_named_def)
  have i4: "isfile (files w4) ''data/run.nc''" by (simp add: w4_def fa)
  have i1: "isfile ?fl1 ''data/run.json''" unfolding f1 by simp
  have "create_failed ex_manager w4 ex_input 0 ''data/run.nc'' ''ignore'' p
      = (Inr ''data/run.nc'', w4\<lparr>files := ex_named\<rparr>)"
    using i4 j1 i1 f2 by (simp add: create_failed_def Let_def os_remove_def)
  with c show ?thesis by (simp add: w4_def argv)
qed

theorem create_twice_counterexample:
  "fst (create ex_runner_fail ex_manager ex_registered ex_input 0 [] ''ignore'' ''ignore'')
     = Inr ''data/run.nc''
   \<and> fst (create ex_runner_fail ex_manager
            (snd (create ex_runner_fail ex_manager ex_registered ex_input 0 [] ''ignore'' ''ignore''))
            ex_input 0 [] ''ignore'' ''ignore'')
     = Inr ''data/run.nc''
   \<and> calls (snd (create ex_runner_fail ex_manager
            (snd (create ex_runner_fail ex_manager ex_registered ex_input 0 [] ''ignore'' ''ignore''))
            ex_input 0 [] ''ignore'' ''ignore''))
     = [[''./execute.sh'', ''data/run.json'', ''data/run.nc''],
        [''./execute.sh'', ''data/run.json'', ''data/run.nc'']]"
  by (simp add: ex_registered_def ex_fail_once)

theorem create_cached_witness:
  "register_if_named ex_manager ex_stored ex_input [] = (Inr (), ex_stored)
   \<and> outfile ex_manager (files ex_stored) ex_input 0 = Inr ''data/run.nc''
   \<and> isfile (files ex_stored) ''data/run.nc''
   \<and> create ex_runner_ok ex_manager ex_stored ex_input 0 [] ''raise'' ''ignore''
       = (Inr ''data/run.nc'', print (existing_msg ex_input ''data/run.nc'') ex_stored)
   \<and> create ex_runner_ok ex_manager (print (existing_msg ex_input ''data/run.nc'') ex_stored)
         ex_input 0 [] ''raise'' ''ignore''
       = (Inr ''data/run.nc'',
          print (existing_msg ex_input ''data/run.nc'')
            (print (existing_msg ex_input ''data/run.nc'') ex_stored))
   \<and> calls (print (existing_msg ex_input ''data/run.nc'')
            (print (existing_msg ex_input ''data/run.nc'') ex_stored)) = []"
proof -
  have s: "register_if_named ex_manager ex_stored ex_input [] = (Inr (), ex_stored)"
    by (simp add: register_if_named_def)
  note f = ex_stored_facts
  let ?w' = "print (existing_msg ex_input ''data/run.nc'') ex_stored"
  from create_cached [OF s f(3), where run = ex_runner_ok and err = "''raise''"
      and sout = "''ignore''"] f(7)
  have first: "create ex_runner_ok ex_manager ex_stored ex_input 0 [] ''raise'' ''ignore''
       = (Inr ''data/run.nc'', ?w')"
    by simp
  have "isfile (files ?w') ''data/run.nc''"
    "map_of (files ?w') (registry_path ex_manager) = map_of (files ex_stored) (registry_path ex_manager)"
    using f(7) by (simp_all add: print_def)
  with create_cached [OF s f(3), where run = ex_runner_ok and err = "''raise''"
      and sout = "''ignore''"] first
  have second: "create ex_runner_ok ex_manager ?w' ex_input 0 [] ''raise'' ''ignore''
       = (Inr ''data/run.nc'', print (existing_msg ex_input ''data/run.nc'') ?w')"
    by blast
  have "calls (print (existing_msg ex_input ''data/run.nc'') ?w') = []"
    by (simp add: print_def ex_stored_def)
  with s f(3,7) first second show ?thesis by simp
qed

lemma ex_orphan_registry:
  "get_registry ex_manager (files ex_orphan) = Inr [(hashinput ex_input, ''run'')]"
  by (simp add: get_registry_def ex_manager_def ex_named_def ex_orphan_def path_join_def
      isfile_def json_load_def registry_doc_def)

lemma ex_ok_once:
  "create ex_runner_ok ex_manager ex_registered ex_input 0 [] ''raise'' ''ignore''
     = (Inr ''data/run.nc'',
        \<lparr>files = ex_named @ [(''data/run.json'', JsonDoc (sort_keys ex_input)),
                              (''data/run.nc'', Opaque ''result'')],
         calls = [[''./execute.sh'', ''data/run.json'', ''data/run.nc'']],
         printed = [running_msg ex_input ''data/run.nc'']\<rparr>)"
proof -
  let ?argv = "run_argv ex_manager ''data/run.json'' ''data/run.nc'' 0 ''data/run.nc''"
  note b = ex_paths [OF ex_registered_registry]
  have s0: "register_if_named ex_manager ex_registered ex_input [] = (Inr (), ex_registered)"
    by (simp add: register_if_named_def)
  have m0: "\<not> isfile (files ex_registered) ''data/run.nc''"
    and mj: "\<not> isfile (files ex_registered) ''data/run.json''"
    by (simp_all add: isfile_def ex_registered_def ex_named_def)
  define p where "p = ex_runner_ok ?argv (input_written ex_input ''data/run.json'' (files ex_registered))"
  define w4 where "w4 = ex_registered\<lparr>files := files_after p, calls := calls ex_registered @ [?argv],
      printed := printed ex_registered @ [running_msg ex_input ''data/run.nc'']\<rparr>"
  have argv: "?argv = [''./execute.sh'', ''data/run.json'', ''data/run.nc'']"
    by (simp add: run_argv_def ex_manager_def)
  have fa: "files_after p = ex_named @ [(''data/run.json'', JsonDoc (sort_keys ex_input)),
                              (''data/run.nc'', Opaque ''result'')]"
    using mj by (simp add: p_def ex_runner_ok_def argv input_written_def json_dump_def)
      (simp add: ex_registered_def ex_named_def)
  have rc: "returncode p = 0" by (simp add: p_def ex_runner_ok_def)
  have "create ex_runner_ok ex_manager ex_registered ex_input 0 [] ''raise'' ''ignore'' =
           (if returncode p = 0
            then (Inr ''data/run.nc'', if ''ignore'' = ''display'' then print (stdout p) w4 else w4)
            else create_failed ex_manager w4 ex_input 0 ''data/run.nc'' ''raise'' p)"
    using s0 b(2) m0 b(1) b(3) p_def w4_def by (rule create_miss)
  then show ?thesis by (simp add: rc w4_def fa argv ex_registered_def)
qed

lemma ex_h5_fails:
  "files (snd (create ex_runner_fail ex_manager_h5
      \<lparr>files = ex_named @ [(''data/run.json'', JsonDoc (sort_keys ex_input)),
                            (''data/run.nc'', Opaque ''result'')],
       calls = cs, printed = ps\<rparr> ex_input 0 [] ''ignore'' ''ignore''))
     = files ex_orphan"
proof -
  let ?fl = "ex_named @ [(''data/run.json'', JsonDoc (sort_keys ex_input)),
                            (''data/run.nc'', Opaque ''result'')]"
  let ?w = "\<lparr>files = ?fl, calls = cs, printed = ps\<rparr>"
  let ?argv = "run_argv ex_manager_h5 ''data/run.json'' ''data/run.h5'' 0 ''data/run.h5''"
  have rp: "registry_path ex_manager_h5 = ''data/simplesimdb.json''"
    by (simp add: registry_path_def ex_manager_h5_def ex_manager_def path_join_def)
  have reg: "get_registry ex_manager_h5 ?fl = Inr [(hashinput ex_input, ''run'')]"
    by (simp add: get_registry_def ex_manager_h5_def ex_manager_def ex_named_def path_join_def
      isfile_def json_load_def registry_doc_def)
  have j0: "jsonfile ex_manager_h5 ?fl ex_input = Inr ''data/run.json''"
    by (simp add: jsonfile_eq [OF reg] resolve_def)
       (simp add: ex_manager_h5_def ex_manager_def path_join_def)
  have o0: "outfile ex_manager_h5 ?fl ex_input 0 = Inr ''data/run.h5''"
    "outfile ex_manager_h5 ?fl ex_input (0 - 1) = Inr ''data/run.h5''"
    by (simp_all add: outfile_eq [OF reg] resolve_def sim_num_def out_ext_def)
       (simp_all add: ex_manager_h5_def ex_manager_def path_join_def)
  have j: "jsonfile ex_manager_h5 (files ?w) ex_input = Inr ''data/run.json''"
    using j0 by simp
  have o: "outfile ex_manager_h5 (files ?w) ex_input 0 = Inr ''data/run.h5''"
    "outfile ex_manager_h5 (files ?w) ex_input (0 - 1) = Inr ''data/run.h5''"
    using o0 by simp_all
  have s0: "register_if_named ex_manager_h5 ?w ex_input [] = (Inr (), ?w)"
    by (simp add: register_if_named_def)
  have m0: "\<not> isfile (files ?w) ''data/run.h5''" and ij: "isfile ?fl ''data/run.json''"
    by (simp_all add: isfile_def ex_named_def)
  define p where "p = ex_runner_fail ?argv (input_written ex_input ''data/run.json'' (files ?w))"
  define w4 where "w4 = ?w\<lparr>files := files_after p, calls := calls ?w @ [?argv],
      printed := printed ?w @ [running_msg ex_input ''data/run.h5'']\<rparr>"
  have argv: "?argv = [''./execute.sh'', ''data/run.json'', ''data/run.h5'']"
    by (simp add: run_argv_def ex_manager_h5_def ex_manager_def)
  have fa: "files_after p = ?fl @ [(''data/run.h5'', Opaque ''partial'')]"
    using ij by (simp add: p_def ex_runner_fail_def argv input_written_def)
      (simp add: ex_named_def)
  have rc: "returncode p = 1" by (simp add: p_def ex_runner_fail_def)
  have "create ex_runner_fail ex_manager_h5 ?w ex_input 0 [] ''ignore'' ''ignore'' =
           (if returncode p = 0
            then (Inr ''data/run.h5'', if ''ignore'' = ''display'' then print (stdout p) w4 else w4)
            else create_failed ex_manager_h5 w4 ex_input 0 ''data/run.h5'' ''ignore'' p)"
    using s0 o(1) m0 j o(2) p_def w4_def by (rule create_miss)
  then have c: "create ex_runner_fail ex_manager_h5 ?w ex_input 0 [] ''ignore'' ''ignore'' =
      create_failed ex_manager_h5 w4 ex_input 0 ''data/run.h5'' ''ignore'' p"
    by (simp add: rc)
  let ?fl1 = "AList.delete ''data/run.h5'' (files w4)"
  have f1: "?fl1 = ?fl"
    by (simp add: w4_def fa) (simp add: ex_named_def)
  have f2: "AList.delete ''data/run.json'' ?fl = files ex_orphan"
    by (simp add: ex_orphan_def ex_named_def)
  have i4: "isfile (files w4) ''data/run.h5''" by (simp add: w4_def fa isfile_def)
  have j1: "jsonfile ex_manager_h5 ?fl1 ex_input = Inr ''data/run.json''"
    using j0 by (simp add: f1)
  have "create_failed ex_manager_h5 w4 ex_input 0 ''data/run.h5'' ''ignore'' p
      = (Inr ''data/run.h5'', w4\<lparr>files := files ex_orphan\<rparr>)"
    using i4 j1 ij f2 by (simp add: create_failed_def Let_def os_remove_def f1)
  with c show ?thesis by simp
qed

text \<open>
  Claim C6 fails on the code where the output of index 0 is present and the input file
  is not: \<open>delete js 0\<close> removes the output file and then raises FileNotFoundError
  on the input file, so the name stays registered. The directory below holds the
  registry with \<open>ex_input\<close> registered as \<^verbatim>\<open>run\<close> and the output \<^verbatim>\<open>data/run.nc\<close>; it
  is what a successful \<open>create\<close> with the output extension \<^verbatim>\<open>nc\<close> followed by a failed
  \<open>create\<close> of the same record with the extension set to \<^verbatim>\<open>h5\<close> leaves behind.
\<close>

theorem delete_missing_input_raises:
  "isfile (files ex_orphan) ''data/run.nc''
   \<and> \<not> isfile (files ex_orphan) ''data/run.json''
   \<and> outfile ex_manager (files ex_orphan) ex_input 0 = Inr ''data/run.nc''
   \<and> jsonfile ex_manager (files ex_orphan) ex_input = Inr ''data/run.json''
   \<and> delete ex_manager ex_orphan ex_input 0
       = (Inl (FileNotFoundError ''data/run.json''), ex_orphan\<lparr>files := ex_named\<rparr>)
   \<and> get_registry ex_manager ex_named = Inr [(hashinput ex_input, ''run'')]
   \<and> files (snd (create ex_runner_fail ex_manager_h5
          (snd (create ex_runner_ok ex_manager ex_registered ex_input 0 [] ''raise'' ''ignore''))
          ex_input 0 [] ''ignore'' ''ignore''))
       = files ex_orphan"
proof -
  note b = ex_paths [OF ex_orphan_registry]
  have h: "files (snd (create ex_runner_fail ex_manager_h5
          (snd (create ex_runner_ok ex_manager ex_registered ex_input 0 [] ''raise'' ''ignore''))
          ex_input 0 [] ''ignore'' ''ignore''))
       = files ex_orphan"
    by (simp add: ex_ok_once ex_h5_fails)
  have i: "isfile (files ex_orphan) ''data/run.nc''"
    and n: "\<not> isfile (files ex_orphan) ''data/run.json''"
    by (simp_all add: isfile_def ex_orphan_def ex_named_def)
  have f1: "AList.delete ''data/run.nc'' (files ex_orphan) = ex_named"
    by (simp add: ex_orphan_def ex_named_def)
  have j1: "jsonfile ex_manager ex_named ex_input = Inr ''data/run.json''"
    by (rule ex_paths(1) [OF ex_named_registry])
  have n1: "\<not> isfile ex_named ''data/run.json''"
    by (simp add: isfile_def ex_named_def)
  have "delete ex_manager ex_orphan ex_input 0
       = (Inl (FileNotFoundError ''data/run.json''), ex_orphan\<lparr>files := ex_named\<rparr>)"
    using b(2) i j1 n1 by (simp add: delete_def Let_def f1 os_remove_def)
  with i n b(1,2) ex_named_registry h show ?thesis by simp
qed

lemma sort_key_fst_perm:
  assumes "mset xs = mset ys" and "distinct (map fst xs)"
  shows "sort_key fst xs = sort_key fst ys"
proof (rule sort_key_inj_key_eq)
  show "mset xs = mset (sort_key fst ys)" using assms(1) by simp
  show "inj_on fst (set xs)" using assms(2) by (simp add: distinct_map)
  show "sorted (map fst (sort_key fst ys))" by simp
qed

lemma sort_keys_perm:
  assumes "distinct (map fst kvs)"
    and "mset (map (map_prod id sort_keys) kvs) = mset (map (map_prod id sort_keys) kvs')"
  shows "sort_keys (JObj kvs) = sort_keys (JObj kvs')"
proof -
  have "map fst (map (map_prod id sort_keys) kvs) = map fst kvs" by simp
  with assms(1) have "distinct (map fst (map (map_prod id sort_keys) kvs))" by simp
  from sort_key_fst_perm [OF assms(2) this] show ?thesis by simp
qed

lemma escape_char_a: "escape_char CHR ''a'' = ''a''"
  by (simp add: escape_char_def)

lemma dumps_key_of_length: "length (dumps (key_of_length k)) = k + 10"
  by (simp add: dumps_def key_of_length_def render_item_def encode_basestring_ascii_def
      escape_char_a length_concat sum_list_replicate o_def)

lemma dumps_key_of_length_inj: "inj (\<lambda>k. dumps (key_of_length k))"
proof (rule injI)
  fix a b assume "dumps (key_of_length a) = dumps (key_of_length b)"
  then have "length (dumps (key_of_length a)) = length (dumps (key_of_length b))" by simp
  then show "a = b" by (simp add: dumps_key_of_length)
qed

lemma hashinput_range_finite: "finite (range hashinput)"
proof -
  have "range hashinput \<subseteq> {s. set s \<subseteq> set ''0123456789abcdef'' \<and> length s = 40}"
  proof (rule image_subsetI)
    fix js
    show "hashinput js \<in> {s. set s \<subseteq> set ''0123456789abcdef'' \<and> length s = 40}"
      by (rule CollectI) (rule conjI [OF hashinput_chars hashinput_length])
  qed
  moreover have "finite {s. set s \<subseteq> set ''0123456789abcdef'' \<and> length s = 40}"
    by (rule finite_lists_length_eq) simp
  ultimately show ?thesis by (rule finite_subset)
qed

theorem hash_collision_counterexample:
  "\<not> (\<forall>r1 r2. hashinput r1 = hashinput r2 \<longleftrightarrow> dumps r1 = dumps r2)"
proof
  assume iff: "\<forall>r1 r2. hashinput r1 = hashinput r2 \<longleftrightarrow> dumps r1 = dumps r2"
  have "inj (\<lambda>k. hashinput (key_of_length k))"
  proof (rule injI)
    fix a b assume "hashinput (key_of_length a) = hashinput (key_of_length b)"
    with iff have "dumps (key_of_length a) = dumps (key_of_length b)" by blast
    with dumps_key_of_length_inj show "a = b" by (simp add: inj_def)
  qed
  then have "infinite (range (\<lambda>k. hashinput (key_of_length k)))"
    using finite_imageD infinite_UNIV_nat by blast
  moreover have "range (\<lambda>k. hashinput (key_of_length k)) \<subseteq> range hashinput" by auto
  ultimately show False using hashinput_range_finite finite_subset by blast
qed

lemma hashinput_ex_int:
  "hashinput (JObj [(''a'', JInt 10)]) = ''d1f6451b80dda3c0531f1a593fd4a12a8c05bd05''"
  by code_simp

lemma hashinput_ex_float:
  "hashinput (JObj [(''a'', JFloat ''10.0'')]) = ''23d18fe235b6998a89223800ff48c9ad1e887292''"
  by code_simp

lemma dumps_ex_int: "dumps (JObj [(''a'', JInt 10)]) = [CHR ''{'', CHR 0x22] @ ''a'' @ [CHR 0x22] @ '': 10}''"
  by code_simp

lemma dumps_ex_float:
  "dumps (JObj [(''a'', JFloat ''10.0'')]) = [CHR ''{'', CHR 0x22] @ ''a'' @ [CHR 0x22] @ '': 10.0}''"
  by code_simp

text \<open>
  Claim C3, as amended. \<open>hashinput\<close> is a function of the canonical serialisation:
  records with the same serialisation have the same hash (the converse fails: the
  digests of 40 hexadecimal digits cannot tell all serialisations apart). Records
  that differ only in the order of their keys (at the top, or inside values that are
  equal once their own keys are put in order) have the same serialisation and the
  same hash, while \<^verbatim>\<open>{"a": 10}\<close> and \<^verbatim>\<open>{"a": 10.0}\<close> have different serialisations
  and different hashes.
\<close>

theorem hashinput_canonical:
  "(dumps r1 = dumps r2 \<longrightarrow> hashinput r1 = hashinput r2)
   \<and> (distinct (map fst kvs) \<and> mset kvs = mset kvs'
        \<longrightarrow> dumps (JObj kvs) = dumps (JObj kvs') \<and> hashinput (JObj kvs) = hashinput (JObj kvs'))
   \<and> (distinct (map fst kvs)
          \<and> mset (map (map_prod id sort_keys) kvs) = mset (map (map_prod id sort_keys) kvs')
        \<longrightarrow> dumps (JObj kvs) = dumps (JObj kvs') \<and> hashinput (JObj kvs) = hashinput (JObj kvs'))
   \<and> dumps (JObj [(''a'', JInt 10)]) \<noteq> dumps (JObj [(''a'', JFloat ''10.0'')])
   \<and> hashinput (JObj [(''a'', JInt 10)]) \<noteq> hashinput (JObj [(''a'', JFloat ''10.0'')])"
proof (intro conjI impI)
  assume "dumps r1 = dumps r2"
  then show "hashinput r1 = hashinput r2" by (simp add: hashinput_def)
next
  assume a: "distinct (map fst kvs) \<and> mset kvs = mset kvs'"
  then have "mset (map (map_prod id sort_keys) kvs) = mset (map (map_prod id sort_keys) kvs')"
    by (metis mset_map)
  with a have "sort_keys (JObj kvs) = sort_keys (JObj kvs')" by (intro sort_keys_perm) simp_all
  then show d: "dumps (JObj kvs) = dumps (JObj kvs')" by (simp only: dumps_def)
  then show "hashinput (JObj kvs) = hashinput (JObj kvs')" by (simp add: hashinput_def)
next
  assume a: "distinct (map fst kvs)
      \<and> mset (map (map_prod id sort_keys) kvs) = mset (map (map_prod id sort_keys) kvs')"
  then have "sort_keys (JObj kvs) = sort_keys (JObj kvs')" by (intro sort_keys_perm) simp_all
  then show d: "dumps (JObj kvs) = dumps (JObj kvs')" by (simp only: dumps_def)
  then show "hashinput (JObj kvs) = hashinput (JObj kvs')" by (simp add: hashinput_def)
next
  show "dumps (JObj [(''a'', JInt 10)]) \<noteq> dumps (JObj [(''a'', JFloat ''10.0'')])"
    by (simp add: dumps_ex_int dumps_ex_float)
  show "hashinput (JObj [(''a'', JInt 10)]) \<noteq> hashinput (JObj [(''a'', JFloat ''10.0'')])"
    by (simp add: hashinput_ex_int hashinput_ex_float)
qed

theorem hashinput_canonical_witness:
  "distinct (map fst [(''b'', JInt 1), (''a'', JFloat ''2.5'')])
   \<and> mset [(''b'', JInt 1), (''a'', JFloat ''2.5'')] = mset [(''a'', JFloat ''2.5''), (''b'', JInt 1)]
   \<and> dumps (JObj [(''b'', JInt 1), (''a'', JFloat ''2.5'')])
       = dumps (JObj [(''a'', JFloat ''2.5''), (''b'', JInt 1)])
   \<and> hashinput (JObj [(''b'', JInt 1), (''a'', JFloat ''2.5'')])
       = hashinput (JObj [(''a'', JFloat ''2.5''), (''b'', JInt 1)])"
proof -
  have d: "distinct (map fst [(''b'', JInt 1), (''a'', JFloat ''2.5'')])" by simp
  have m: "mset [(''b'', JInt 1), (''a'', JFloat ''2.5'')] = mset [(''a'', JFloat ''2.5''), (''b'', JInt 1)]"
    by simp
  from hashinput_canonical [where kvs = "[(''b'', JInt 1), (''a'', JFloat ''2.5'')]"
      and kvs' = "[(''a'', JFloat ''2.5''), (''b'', JInt 1)]"] d m
  show ?thesis by blast
qed













end
